theory Spec2Isabelle
  imports Main "HOL-Library.Sublist"
begin

section \<open>Data model\<close>

text \<open>
  The retrieval orchestrator of \<^verbatim>\<open>services/vector_index/qdrant.py\<close> (class
  \<^verbatim>\<open>QdrantIndex\<close>). Python exceptions are values: a function returns
  \<open>error + 'a\<close>, \<open>Inl\<close> carrying the exception. The orchestrator has no
  \<^verbatim>\<open>try\<close>, so an exception of a collaborator or of a dictionary lookup ends
  the call.
\<close>

datatype error =
    KeyError string
  | CollaboratorError string

text \<open>
  A Python \<^verbatim>\<open>str\<close> holding data (a text, a keyword, a query, a document id) is a
  list of code points; \<open>'c\<close> is the type of a code point. The string literals of the
  program (dictionary keys, messages) are of type \<open>string\<close>.
\<close>

type_synonym 'c str = "'c list"

text \<open>
  A stored payload is a Python dict. The orchestrator reads the keys
  \<^verbatim>\<open>"chunk_number"\<close>, \<^verbatim>\<open>"text"\<close> and \<^verbatim>\<open>"page_number"\<close>
  and filters on \<^verbatim>\<open>"document_id"\<close>; a field is \<open>None\<close> when the key is
  missing, and reading it raises \<^verbatim>\<open>KeyError\<close>.
\<close>

record 'c payload =
  document_id :: "'c str option"
  chunk_number :: "int option"
  page_number :: "int option"
  chunk_text :: "'c str option"

text \<open>A point returned by \<^verbatim>\<open>query_points(...).points\<close>.\<close>

record 'c scored_point =
  point_id :: nat
  point_payload :: "'c payload"

text \<open>\<^verbatim>\<open>models.MatchValue\<close>, \<^verbatim>\<open>models.MatchText\<close>,
  \<^verbatim>\<open>models.FieldCondition\<close>, \<^verbatim>\<open>models.Filter\<close>.\<close>

datatype 'c match_cond = MatchValue "'c str" | MatchText "'c str"

datatype 'c field_condition =
  FieldCondition (cond_key: string) (cond_match: "'c match_cond")

record 'c query_filter =
  must :: "'c field_condition list"
  should :: "'c field_condition list"

text \<open>
  The keyword arguments of one \<^verbatim>\<open>client.query_points\<close> call. An argument the
  call leaves out is \<open>None\<close> (the client's default applies). \<open>'v\<close> is the type of
  an embedded query.
\<close>

record ('c, 'v) query_request =
  req_collection :: string
  req_query :: "'v option"
  req_limit :: "nat option"
  req_with_payload :: bool
  req_filter :: "'c query_filter"

text \<open>The keyword arguments of \<^verbatim>\<open>client.delete\<close>.\<close>

record 'c delete_request =
  del_collection :: string
  del_selector :: "'c query_filter"
  del_wait :: bool

text \<open>
  \<^verbatim>\<open>self\<close>: the collection name and the client. The Point Store is external;
  its state is \<open>'s\<close>, a query reads it and a delete returns the new one.
\<close>

record ('c, 's, 'v) qdrant_index =
  collection_name :: string
  query_points :: "'s \<Rightarrow> ('c, 'v) query_request \<Rightarrow> error + 'c scored_point list"
  delete_points :: "'s \<Rightarrow> 'c delete_request \<Rightarrow> error + 's"

text \<open>
  \<^verbatim>\<open>llm_service\<close>: the call \<^verbatim>\<open>llm_service.get_embeddings()\<close> raises or
  returns the embedding object, whose method \<^verbatim>\<open>embed_query\<close> raises or returns
  the vector of a query.
\<close>

type_synonym ('c, 'v) embeddings = "'c str \<Rightarrow> error + 'v"

record ('c, 'v) llm_service =
  get_embeddings :: "error + ('c, 'v) embeddings"

text \<open>Modelled from the spec: the declarations of \<^verbatim>\<open>Chunk\<close> and
  \<^verbatim>\<open>VectorResponse\<close> (\<^verbatim>\<open>models/query.py\<close>) are missing; the spec gives the
  result shape \<^verbatim>\<open>{message: string, chunks: [{content: string, page: integer}, ...]}\<close>.
  Reading \<^verbatim>\<open>response["chunks"]\<close> is reading the field \<open>chunks\<close>.\<close>

record 'c chunk =
  content :: "'c str"
  page :: int

record 'c vector_response =
  message :: string
  chunks :: "'c chunk list"

section \<open>vector_search\<close>

text \<open>The filter \<^verbatim>\<open>must=[FieldCondition(key="document_id", match=MatchValue(value=document_id))]\<close>.\<close>

definition document_filter :: "'c str \<Rightarrow> 'c query_filter" where
  "document_filter doc_id =
     \<lparr>must = [FieldCondition ''document_id'' (MatchValue doc_id)], should = []\<rparr>"

text \<open>The similarity request of lines 71-84 and 157-170: \<^verbatim>\<open>limit=40\<close>,
  \<^verbatim>\<open>with_payload=True\<close>, the document filter.\<close>

definition similarity_request :: "string \<Rightarrow> 'v \<Rightarrow> 'c str \<Rightarrow> ('c, 'v) query_request" where
  "similarity_request coll embedded_query doc_id =
     \<lparr>req_collection = coll, req_query = Some embedded_query, req_limit = Some 40,
      req_with_payload = True, req_filter = document_filter doc_id\<rparr>"

text \<open>
  The first loop of \<^verbatim>\<open>vector_search\<close> (lines 66-86): for each query, embed it,
  search, and extend \<^verbatim>\<open>final_chunks\<close> with the payloads of the points.
  \<open>embeddings\<close> is the object line 62 obtained. Logging is left out.
\<close>

fun collect_chunks ::
  "('c, 's, 'v) qdrant_index \<Rightarrow> ('c, 'v) embeddings \<Rightarrow> 's \<Rightarrow> 'c str list \<Rightarrow> 'c str
     \<Rightarrow> 'c payload list \<Rightarrow> error + 'c payload list" where
  "collect_chunks self embeddings st [] doc_id final_chunks = Inr final_chunks"
| "collect_chunks self embeddings st (query # queries) doc_id final_chunks =
     (case embeddings query of
        Inl e \<Rightarrow> Inl e
      | Inr embedded_query \<Rightarrow>
          (case query_points self st
                  (similarity_request (collection_name self) embedded_query doc_id) of
             Inl e \<Rightarrow> Inl e
           | Inr query_response \<Rightarrow>
               collect_chunks self embeddings st queries doc_id
                 (final_chunks @ map point_payload query_response)))"

text \<open>
  The deduplication loop (lines 90-95 of \<^verbatim>\<open>vector_search\<close>, lines 190-195 of
  \<^verbatim>\<open>hybrid_search\<close>): a chunk whose number is not in \<^verbatim>\<open>seen_chunks\<close>
  is formatted and appended, and its number is added to the set. The two loops differ in
  the order of the append and the add only.
\<close>

fun dedup_format ::
  "'c payload list \<Rightarrow> int set \<Rightarrow> 'c chunk list \<Rightarrow> error + 'c chunk list" where
  "dedup_format [] seen_chunks formatted_output = Inr formatted_output"
| "dedup_format (c # cs) seen_chunks formatted_output =
     (case chunk_number c of
        None \<Rightarrow> Inl (KeyError ''chunk_number'')
      | Some n \<Rightarrow>
          if n \<notin> seen_chunks then
            (case chunk_text c of
               None \<Rightarrow> Inl (KeyError ''text'')
             | Some t \<Rightarrow>
                 (case page_number c of
                    None \<Rightarrow> Inl (KeyError ''page_number'')
                  | Some pg \<Rightarrow>
                      dedup_format cs (insert n seen_chunks)
                        (formatted_output @ [\<lparr>content = t, page = pg\<rparr>])))
          else dedup_format cs seen_chunks formatted_output)"

text \<open>
  \<^verbatim>\<open>vector_search\<close> (lines 56-101): line 62 obtains the embedding object before
  the loop, also when there is no query.
\<close>

definition vector_search ::
  "('c, 's, 'v) qdrant_index \<Rightarrow> ('c, 'v) llm_service \<Rightarrow> 's \<Rightarrow> 'c str list \<Rightarrow> 'c str
     \<Rightarrow> error + 'c vector_response" where
  "vector_search self llm_service st queries doc_id =
     (case get_embeddings llm_service of
        Inl e \<Rightarrow> Inl e
      | Inr embeddings \<Rightarrow>
          (case collect_chunks self embeddings st queries doc_id [] of
             Inl e \<Rightarrow> Inl e
           | Inr final_chunks \<Rightarrow>
               (case dedup_format final_chunks {} [] of
                  Inl e \<Rightarrow> Inl e
                | Inr formatted_output \<Rightarrow>
                    Inr \<lparr>message = ''Query processed successfully.'',
                         chunks = formatted_output\<rparr>)))"

section \<open>Python library functions used by hybrid_search\<close>

text \<open>
  \<^verbatim>\<open>str.count(sub)\<close>: the occurrences of \<open>sub\<close> found by scanning from the
  left and resuming the scan behind each occurrence found, so that the occurrences
  counted do not overlap. The empty \<open>sub\<close> is counted \<open>len(s) + 1\<close> times.
\<close>

fun count_from :: "'c str \<Rightarrow> 'c str \<Rightarrow> nat" where
  "count_from [] sub = 0"
| "count_from (c # cs) sub =
     (if prefix sub (c # cs) then 1 + count_from (drop (length sub - 1) cs) sub
      else count_from cs sub)"

definition str_count :: "'c str \<Rightarrow> 'c str \<Rightarrow> nat" where
  "str_count s sub = (if sub = [] then length s + 1 else count_from s sub)"

text \<open>
  \<^verbatim>\<open>str.lower\<close> is given by the Unicode tables of the Python runtime: the functions
  below take it as the parameter \<open>lower\<close>, and what is proved of them holds for every
  such function.
\<close>

text \<open>Evaluating a fallible function on each element in order; the first exception ends it.\<close>

fun map_result :: "('a \<Rightarrow> error + 'b) \<Rightarrow> 'a list \<Rightarrow> error + 'b list" where
  "map_result f [] = Inr []"
| "map_result f (x # xs) =
     (case f x of
        Inl e \<Rightarrow> Inl e
      | Inr y \<Rightarrow> (case map_result f xs of Inl e \<Rightarrow> Inl e | Inr ys \<Rightarrow> Inr (y # ys)))"

text \<open>
  \<^verbatim>\<open>sorted(xs, key=key, reverse=reverse)\<close> as CPython computes it: the key of
  every element is computed once, in order; the list is sorted stably by the keys; with
  \<^verbatim>\<open>reverse=True\<close> the list is reversed before and after the stable sort, so that
  elements with equal keys keep their original order.
\<close>

definition sorted_py ::
  "('a \<Rightarrow> error + 'k::linorder) \<Rightarrow> bool \<Rightarrow> 'a list \<Rightarrow> error + 'a list" where
  "sorted_py key reverse xs =
     (case map_result key xs of
        Inl e \<Rightarrow> Inl e
      | Inr ks \<Rightarrow>
          (let decorated = zip ks xs in
           Inr (map snd (if reverse then rev (sort_key fst (rev decorated))
                         else sort_key fst decorated))))"

section \<open>hybrid_search\<close>

text \<open>\<^verbatim>\<open>count_keywords\<close> (lines 141-144):
  \<^verbatim>\<open>sum(text.lower().count(keyword.lower()) for keyword in keywords)\<close>.\<close>

definition count_keywords :: "('c str \<Rightarrow> 'c str) \<Rightarrow> 'c str \<Rightarrow> 'c str list \<Rightarrow> nat" where
  "count_keywords lower txt keywords =
     sum_list (map (\<lambda>keyword. str_count (lower txt) (lower keyword)) keywords)"

text \<open>The request of lines 119-138: no query vector, no limit, the document filter in
  \<^verbatim>\<open>must\<close> and one text condition per keyword in \<^verbatim>\<open>should\<close>.\<close>

definition keyword_request :: "string \<Rightarrow> 'c str list \<Rightarrow> 'c str \<Rightarrow> ('c, 'v) query_request" where
  "keyword_request coll keywords doc_id =
     \<lparr>req_collection = coll, req_query = None, req_limit = None, req_with_payload = True,
      req_filter =
        \<lparr>must = [FieldCondition ''document_id'' (MatchValue doc_id)],
         should = map (\<lambda>keyword. FieldCondition ''text'' (MatchText keyword)) keywords\<rparr>\<rparr>"

text \<open>The sort key of lines 148-150: \<^verbatim>\<open>count_keywords(chunk["text"], keywords or [])\<close>.\<close>

definition keyword_key ::
  "('c str \<Rightarrow> 'c str) \<Rightarrow> 'c str list \<Rightarrow> 'c payload \<Rightarrow> error + nat" where
  "keyword_key lower keywords c =
     (case chunk_text c of
        None \<Rightarrow> Inl (KeyError ''text'')
      | Some t \<Rightarrow> Inr (count_keywords lower t keywords))"

text \<open>
  The keyword phase (lines 115-152), from the extracted keywords to
  \<^verbatim>\<open>sorted_keyword_chunks\<close>. \<^verbatim>\<open>extract_keywords\<close> may return
  \<^verbatim>\<open>None\<close>; \<^verbatim>\<open>None\<close> and the empty list are both falsy.
\<close>

definition keyword_phase ::
  "('c, 's, 'v) qdrant_index \<Rightarrow> ('c str \<Rightarrow> 'c str) \<Rightarrow> 's \<Rightarrow> 'c str list option \<Rightarrow> 'c str
     \<Rightarrow> error + 'c payload list" where
  "keyword_phase self lower st keywords doc_id =
     (case keywords of
        None \<Rightarrow> Inr []
      | Some kws \<Rightarrow>
          if kws = [] then Inr []
          else
            (case query_points self st (keyword_request (collection_name self) kws doc_id) of
               Inl e \<Rightarrow> Inl e
             | Inr points \<Rightarrow>
                 sorted_py (keyword_key lower kws) True (map point_payload points)))"

text \<open>The semantic phase (lines 154-172); \<open>embeddings\<close> is the object line 113
  obtained.\<close>

definition semantic_phase ::
  "('c, 's, 'v) qdrant_index \<Rightarrow> ('c, 'v) embeddings \<Rightarrow> 's \<Rightarrow> 'c str \<Rightarrow> 'c str
     \<Rightarrow> error + 'c payload list" where
  "semantic_phase self embeddings st query doc_id =
     (case embeddings query of
        Inl e \<Rightarrow> Inl e
      | Inr embedded_query \<Rightarrow>
          (case query_points self st
                  (similarity_request (collection_name self) embedded_query doc_id) of
             Inl e \<Rightarrow> Inl e
           | Inr points \<Rightarrow> Inr (map point_payload points)))"

text \<open>
  Lines 113-172: the embedding object is obtained first (line 113), then the keywords
  are extracted and the two phases run, giving \<^verbatim>\<open>sorted_keyword_chunks\<close> and
  \<^verbatim>\<open>semantic_response\<close>. \<^verbatim>\<open>extract_keywords\<close> is a method of the base
  class, taken as a parameter; it is called with the query, the rules and the service.
\<close>

definition hybrid_candidates ::
  "('c, 's, 'v) qdrant_index \<Rightarrow> ('c str \<Rightarrow> 'c str)
     \<Rightarrow> ('c str \<Rightarrow> 'r \<Rightarrow> ('c, 'v) llm_service \<Rightarrow> error + 'c str list option)
     \<Rightarrow> ('c, 'v) llm_service \<Rightarrow> 's \<Rightarrow> 'c str \<Rightarrow> 'c str \<Rightarrow> 'r
     \<Rightarrow> error + ('c payload list \<times> 'c payload list)" where
  "hybrid_candidates self lower extract_keywords llm_service st query doc_id rules =
     (case get_embeddings llm_service of
        Inl e \<Rightarrow> Inl e
      | Inr embeddings \<Rightarrow>
          (case extract_keywords query rules llm_service of
             Inl e \<Rightarrow> Inl e
           | Inr keywords \<Rightarrow>
               (case keyword_phase self lower st keywords doc_id of
                  Inl e \<Rightarrow> Inl e
                | Inr sorted_keyword_chunks \<Rightarrow>
                    (case semantic_phase self embeddings st query doc_id of
                       Inl e \<Rightarrow> Inl e
                     | Inr semantic_response \<Rightarrow>
                         Inr (sorted_keyword_chunks, semantic_response)))))"

text \<open>Line 177: \<^verbatim>\<open>sorted_keyword_chunks[:20] + semantic_response\<close>.\<close>

definition combined_chunks :: "'c payload list \<Rightarrow> 'c payload list \<Rightarrow> 'c payload list" where
  "combined_chunks sorted_keyword_chunks semantic_response =
     take 20 sorted_keyword_chunks @ semantic_response"

text \<open>The sort key of line 181: \<^verbatim>\<open>chunk["chunk_number"]\<close>.\<close>

definition chunk_number_key :: "'c payload \<Rightarrow> error + int" where
  "chunk_number_key c =
     (case chunk_number c of None \<Rightarrow> Inl (KeyError ''chunk_number'') | Some n \<Rightarrow> Inr n)"

text \<open>Lines 177-202: merge, sort by chunk number, deduplicate, format.\<close>

definition merge_results ::
  "'c payload list \<Rightarrow> 'c payload list \<Rightarrow> error + 'c vector_response" where
  "merge_results sorted_keyword_chunks semantic_response =
     (case sorted_py chunk_number_key False
             (combined_chunks sorted_keyword_chunks semantic_response) of
        Inl e \<Rightarrow> Inl e
      | Inr combined_sorted_chunks \<Rightarrow>
          (case dedup_format combined_sorted_chunks {} [] of
             Inl e \<Rightarrow> Inl e
           | Inr formatted_output \<Rightarrow>
               Inr \<lparr>message = ''Query processed successfully.'',
                    chunks = formatted_output\<rparr>))"

definition hybrid_search ::
  "('c, 's, 'v) qdrant_index \<Rightarrow> ('c str \<Rightarrow> 'c str)
     \<Rightarrow> ('c str \<Rightarrow> 'r \<Rightarrow> ('c, 'v) llm_service \<Rightarrow> error + 'c str list option)
     \<Rightarrow> ('c, 'v) llm_service \<Rightarrow> 's \<Rightarrow> 'c str \<Rightarrow> 'c str \<Rightarrow> 'r
     \<Rightarrow> error + 'c vector_response" where
  "hybrid_search self lower extract_keywords llm_service st query doc_id rules =
     (case hybrid_candidates self lower extract_keywords llm_service st query doc_id rules of
        Inl e \<Rightarrow> Inl e
      | Inr (sorted_keyword_chunks, semantic_response) \<Rightarrow>
          merge_results sorted_keyword_chunks semantic_response)"

section \<open>decomposed_search and delete_document\<close>

text \<open>The dict returned by \<^verbatim>\<open>decomposed_search\<close>.\<close>

record 'c decomposed_response =
  sub_queries :: "'c str list"
  result_chunks :: "'c chunk list"

text \<open>
  \<^verbatim>\<open>decomposed_search\<close> (lines 205-221). \<^verbatim>\<open>decompose_query\<close> is a
  collaborator returning a dict, read at the key \<^verbatim>\<open>"sub-queries"\<close> (first for the
  search, again for the result). \<^verbatim>\<open>rules\<close> is not used.
\<close>

definition decomposed_search ::
  "('c, 's, 'v) qdrant_index \<Rightarrow> ('c str \<Rightarrow> error + (string \<rightharpoonup> 'c str list))
     \<Rightarrow> ('c, 'v) llm_service \<Rightarrow> 's \<Rightarrow> 'c str \<Rightarrow> 'c str \<Rightarrow> 'r
     \<Rightarrow> error + 'c decomposed_response" where
  "decomposed_search self decompose_query llm_service st query doc_id rules =
     (case decompose_query query of
        Inl e \<Rightarrow> Inl e
      | Inr decomposition_response \<Rightarrow>
          (case decomposition_response ''sub-queries'' of
             None \<Rightarrow> Inl (KeyError ''sub-queries'')
           | Some qs \<Rightarrow>
               (case vector_search self llm_service st qs doc_id of
                  Inl e \<Rightarrow> Inl e
                | Inr sub_query_chunks \<Rightarrow>
                    Inr \<lparr>sub_queries = qs, result_chunks = chunks sub_query_chunks\<rparr>)))"

text \<open>
  \<^verbatim>\<open>delete_document\<close> (lines 224-241): one filtered delete, then the fixed dict.
  The result is the new state of the store and the dict.
\<close>

definition delete_document ::
  "('c, 's, 'v) qdrant_index \<Rightarrow> 's \<Rightarrow> 'c str \<Rightarrow> error + ('s \<times> (string \<rightharpoonup> string))" where
  "delete_document self st doc_id =
     (case delete_points self st
             \<lparr>del_collection = collection_name self,
              del_selector = document_filter doc_id, del_wait = True\<rparr> of
        Inl e \<Rightarrow> Inl e
      | Inr st' \<Rightarrow>
          Inr (st', [''status'' \<mapsto> ''success'',
                     ''message'' \<mapsto> ''Document deleted successfully.'']))"

section \<open>Provenance of the output\<close>

text \<open>
  The output entries carry the text and the page of a payload, not its chunk number. To
  state which payload an entry comes from, \<open>first_by\<close> traces the deduplication
  loop: it returns the elements the loop keeps, those whose key is not yet in the set of
  keys seen.
\<close>

fun first_by :: "('a \<Rightarrow> 'k) \<Rightarrow> 'a list \<Rightarrow> 'k set \<Rightarrow> 'a list" where
  "first_by k [] seen = []"
| "first_by k (x # xs) seen =
     (if k x \<notin> seen then x # first_by k xs (insert (k x) seen) else first_by k xs seen)"

text \<open>An output entry is the formatted payload: \<^verbatim>\<open>{"content": chunk["text"], "page": chunk["page_number"]}\<close>.\<close>

definition originates_from :: "'c chunk \<Rightarrow> 'c payload \<Rightarrow> bool" where
  "originates_from c p \<longleftrightarrow> chunk_text p = Some (content c) \<and> page_number p = Some (page c)"

text \<open>The chunk number of a payload that has one.\<close>

definition chunk_no :: "'c payload \<Rightarrow> int" where
  "chunk_no p = (case chunk_number p of None \<Rightarrow> 0 | Some n \<Rightarrow> n)"

text \<open>\<^verbatim>\<open>final_chunks\<close> after the first loop of \<^verbatim>\<open>vector_search\<close>, and the
  payloads its second loop keeps.\<close>

definition retrieved_chunks ::
  "('c, 's, 'v) qdrant_index \<Rightarrow> ('c, 'v) llm_service \<Rightarrow> 's \<Rightarrow> 'c str list \<Rightarrow> 'c str
     \<Rightarrow> 'c payload list" where
  "retrieved_chunks self llm_service st queries doc_id =
     (case get_embeddings llm_service of
        Inl e \<Rightarrow> []
      | Inr embeddings \<Rightarrow>
          (case collect_chunks self embeddings st queries doc_id [] of
             Inl e \<Rightarrow> []
           | Inr final_chunks \<Rightarrow> final_chunks))"

definition vector_search_origins ::
  "('c, 's, 'v) qdrant_index \<Rightarrow> ('c, 'v) llm_service \<Rightarrow> 's \<Rightarrow> 'c str list \<Rightarrow> 'c str
     \<Rightarrow> 'c payload list" where
  "vector_search_origins self llm_service st queries doc_id =
     first_by chunk_number (retrieved_chunks self llm_service st queries doc_id) {}"

text \<open>The payloads kept by \<^verbatim>\<open>hybrid_search\<close>: the first occurrences in the
  combined list sorted by chunk number.\<close>

definition merge_origins :: "'c payload list \<Rightarrow> 'c payload list \<Rightarrow> 'c payload list" where
  "merge_origins sorted_keyword_chunks semantic_response =
     first_by chunk_number
       (sort_key chunk_no (combined_chunks sorted_keyword_chunks semantic_response)) {}"

definition hybrid_search_origins ::
  "('c, 's, 'v) qdrant_index \<Rightarrow> ('c str \<Rightarrow> 'c str)
     \<Rightarrow> ('c str \<Rightarrow> 'r \<Rightarrow> ('c, 'v) llm_service \<Rightarrow> error + 'c str list option)
     \<Rightarrow> ('c, 'v) llm_service \<Rightarrow> 's \<Rightarrow> 'c str \<Rightarrow> 'c str \<Rightarrow> 'r \<Rightarrow> 'c payload list" where
  "hybrid_search_origins self lower extract_keywords llm_service st query doc_id rules =
     (case hybrid_candidates self lower extract_keywords llm_service st query doc_id rules of
        Inl e \<Rightarrow> []
      | Inr (sorted_keyword_chunks, semantic_response) \<Rightarrow>
          merge_origins sorted_keyword_chunks semantic_response)"

section \<open>The contract of the Point Store\<close>

text \<open>The string-valued payload field a condition's key names.\<close>

definition payload_field :: "'c payload \<Rightarrow> string \<Rightarrow> 'c str option" where
  "payload_field p key =
     (if key = ''document_id'' then document_id p
      else if key = ''text'' then chunk_text p
      else None)"

text \<open>A field condition on a payload: \<^verbatim>\<open>MatchValue\<close> is equality,
  \<^verbatim>\<open>MatchText\<close> is containment of the text.\<close>

fun condition_holds :: "'c field_condition \<Rightarrow> 'c payload \<Rightarrow> bool" where
  "condition_holds (FieldCondition key (MatchValue v)) p \<longleftrightarrow> payload_field p key = Some v"
| "condition_holds (FieldCondition key (MatchText t)) p \<longleftrightarrow>
     (case payload_field p key of None \<Rightarrow> False | Some s \<Rightarrow> sublist t s)"

text \<open>The filter contract: every point a query returns satisfies every \<^verbatim>\<open>must\<close>
  condition of the request's filter.\<close>

definition honors_filter :: "('c, 's, 'v) qdrant_index \<Rightarrow> 's \<Rightarrow> bool" where
  "honors_filter self st \<longleftrightarrow>
     (\<forall>req points. query_points self st req = Inr points \<longrightarrow>
        (\<forall>pt \<in> set points. \<forall>c \<in> set (must (req_filter req)).
           condition_holds c (point_payload pt)))"

text \<open>The limit contract: a query with \<^verbatim>\<open>limit=n\<close> returns at most \<open>n\<close> points.\<close>

definition honors_limit :: "('c, 's, 'v) qdrant_index \<Rightarrow> 's \<Rightarrow> bool" where
  "honors_limit self st \<longleftrightarrow>
     (\<forall>req points n. query_points self st req = Inr points \<longrightarrow> req_limit req = Some n \<longrightarrow>
        length points \<le> n)"

section \<open>In-memory Point Stores\<close>

text \<open>
  Stores for tests: the state is the list of stored points, and an embedded query is
  the list of point ids in the order of their similarity to the query. A filter holds
  when every \<^verbatim>\<open>must\<close> condition holds and, if there are \<^verbatim>\<open>should\<close>
  conditions, one of them holds. \<open>dflt\<close> is the limit the store applies to a query
  that gives none (\<open>None\<close>: every matching point is returned).
\<close>

definition filter_holds :: "'c query_filter \<Rightarrow> 'c payload \<Rightarrow> bool" where
  "filter_holds f p \<longleftrightarrow>
     list_all (\<lambda>c. condition_holds c p) (must f) \<and>
     (should f = [] \<or> list_ex (\<lambda>c. condition_holds c p) (should f))"

definition store_query_points ::
  "nat option \<Rightarrow> 'c scored_point list \<Rightarrow> ('c, nat list) query_request
     \<Rightarrow> error + 'c scored_point list" where
  "store_query_points dflt st req =
     (let candidates =
            (case req_query req of
               None \<Rightarrow> st
             | Some ranking \<Rightarrow> concat (map (\<lambda>i. filter (\<lambda>pt. point_id pt = i) st) ranking));
          matching = filter (\<lambda>pt. filter_holds (req_filter req) (point_payload pt)) candidates
      in Inr (case (case req_limit req of None \<Rightarrow> dflt | Some n \<Rightarrow> Some n) of
                None \<Rightarrow> matching
              | Some n \<Rightarrow> take n matching))"

definition memory_delete_points ::
  "'c scored_point list \<Rightarrow> 'c delete_request \<Rightarrow> error + 'c scored_point list" where
  "memory_delete_points st req =
     Inr (filter (\<lambda>pt. \<not> filter_holds (del_selector req) (point_payload pt)) st)"

text \<open>A store that returns at most 10 points to a query without a limit.\<close>

definition memory_index :: "(char, char scored_point list, nat list) qdrant_index" where
  "memory_index =
     \<lparr>collection_name = ''chunks'', query_points = store_query_points (Some 10),
      delete_points = memory_delete_points\<rparr>"

text \<open>A store that returns every matching point to a query without a limit.\<close>

definition unbounded_index :: "(char, char scored_point list, nat list) qdrant_index" where
  "unbounded_index =
     \<lparr>collection_name = ''chunks'', query_points = store_query_points None,
      delete_points = memory_delete_points\<rparr>"

text \<open>A stored chunk of document \<open>d\<close>; the point id is given.\<close>

definition stored_chunk :: "nat \<Rightarrow> 'c str \<Rightarrow> int \<Rightarrow> int \<Rightarrow> 'c str \<Rightarrow> 'c scored_point" where
  "stored_chunk i d n pg t =
     \<lparr>point_id = i,
      point_payload = \<lparr>document_id = Some d, chunk_number = Some n, page_number = Some pg,
                       chunk_text = Some t\<rparr>\<rparr>"

text \<open>Document \<open>D\<close> with chunks 1 to 5 and one chunk of another document \<open>E\<close>.\<close>

definition example_store :: "char scored_point list" where
  "example_store =
     [stored_chunk 1 ''D'' 1 1 ''Foo foo FOO'',
      stored_chunk 2 ''D'' 2 1 ''a foo'',
      stored_chunk 3 ''D'' 3 2 ''c'',
      stored_chunk 4 ''D'' 4 2 ''d'',
      stored_chunk 5 ''D'' 5 3 ''e'',
      stored_chunk 6 ''E'' 1 1 ''foo of E'']"

text \<open>The same store after chunk 2 of \<open>D\<close> was stored a second time, with another
  text and page.\<close>

definition duplicate_store :: "char scored_point list" where
  "duplicate_store = example_store @ [stored_chunk 7 ''D'' 2 9 ''paraphrase'']"

text \<open>A store whose second chunk holds overlapping occurrences of \<open>aa\<close>.\<close>

definition overlap_store :: "char scored_point list" where
  "overlap_store = [stored_chunk 1 ''D'' 1 1 ''aa aa'', stored_chunk 2 ''D'' 2 1 ''aaaa'']"

text \<open>A store that returns the chunk with the most keyword hits last.\<close>

definition ranking_store :: "char scored_point list" where
  "ranking_store =
     [stored_chunk 2 ''D'' 2 1 ''a foo'', stored_chunk 3 ''D'' 3 2 ''foo c'',
      stored_chunk 1 ''D'' 1 1 ''Foo foo FOO'']"

text \<open>A store with accented text: the first chunk is a small e with acute accent (code
  point 233), the second holds the capital letter (code point 201) three times.\<close>

definition accent_store :: "char scored_point list" where
  "accent_store =
     [stored_chunk 1 ''D'' 1 1 [CHR 0xE9],
      stored_chunk 2 ''D'' 2 1 [CHR 0xC9, CHR '' '', CHR 0xC9, CHR '' '', CHR 0xC9]]"

text \<open>Document \<open>D\<close> with 45 chunks, each holding the keyword \<open>foo\<close> once.\<close>

definition big_store :: "char scored_point list" where
  "big_store = map (\<lambda>i. stored_chunk i ''D'' (int i) 1 ''foo'') [1..<46]"

text \<open>An embedding for the examples: \<open>q1\<close> is nearest to chunks 3, 1 (and to the chunk
  of \<open>E\<close>), \<open>q2\<close> to chunks 1, 5, \<open>q\<close> to chunks 4, 2, \<open>dup\<close> to the
  second copy of chunk 2 and to chunk 4, \<open>all\<close> to the points 1 to 45 in this order.\<close>

definition example_embed :: "(char, nat list) embeddings" where
  "example_embed q =
     (if q = ''q1'' then Inr [3, 6, 1]
      else if q = ''q2'' then Inr [1, 5]
      else if q = ''q'' then Inr [4, 6, 2]
      else if q = ''dup'' then Inr [7, 4]
      else if q = ''all'' then Inr [1..<46]
      else Inr [])"

text \<open>A service whose embedding object is \<open>example_embed\<close>, and one that cannot
  provide an embedding object.\<close>

definition example_llm :: "(char, nat list) llm_service" where
  "example_llm = \<lparr>get_embeddings = Inr example_embed\<rparr>"

definition failing_llm :: "(char, nat list) llm_service" where
  "failing_llm = \<lparr>get_embeddings = Inl (CollaboratorError ''no embedding model'')\<rparr>"

text \<open>A keyword extractor for the examples: the rule is the keyword list itself.\<close>

definition example_extract ::
  "string \<Rightarrow> string list \<Rightarrow> (char, nat list) llm_service \<Rightarrow> error + string list option" where
  "example_extract q rules llm_service = Inr (Some rules)"

text \<open>A query decomposer for the examples.\<close>

definition example_decompose :: "string \<Rightarrow> error + (string \<rightharpoonup> string list)" where
  "example_decompose q =
     Inr [''sub-queries'' \<mapsto> (if q = ''complex query'' then [''q1'', ''q2''] else [])]"

text \<open>
  \<^verbatim>\<open>str.lower\<close> on text whose code points are below 256, a \<open>char\<close> being read as
  its code point: the letters A-Z and the capital letters 192-222 other than 215 move up
  by 32. It is the \<open>lower\<close> of the examples.
\<close>

definition latin1_lower_char :: "char \<Rightarrow> char" where
  "latin1_lower_char c =
     (let n = (of_char c :: nat)
      in if (65 \<le> n \<and> n \<le> 90) \<or> (192 \<le> n \<and> n \<le> 222 \<and> n \<noteq> 215) then char_of (n + 32)
         else c)"

definition latin1_lower :: "string \<Rightarrow> string" where
  "latin1_lower s = map latin1_lower_char s"

section \<open>The keyword score\<close>

text \<open>The text of a payload that has one, and the score \<^verbatim>\<open>count_keywords\<close> gives it.\<close>

definition text_of :: "'c payload \<Rightarrow> 'c str" where
  "text_of p = (case chunk_text p of None \<Rightarrow> [] | Some t \<Rightarrow> t)"

definition keyword_score :: "('c str \<Rightarrow> 'c str) \<Rightarrow> 'c str list \<Rightarrow> 'c payload \<Rightarrow> nat" where
  "keyword_score lower keywords p = count_keywords lower (text_of p) keywords"

text \<open>
  The number of occurrences of \<open>sub\<close> in \<open>s\<close> in the words of the specification:
  the number of positions of \<open>s\<close> at which \<open>sub\<close> occurs as a substring. The
  specification's score sums it over the keywords, on lower-cased text.
\<close>

definition occurrences :: "'c str \<Rightarrow> 'c str \<Rightarrow> nat" where
  "occurrences s sub = length (filter (\<lambda>i. prefix sub (drop i s)) [0..<Suc (length s)])"

definition occurrence_score :: "('c str \<Rightarrow> 'c str) \<Rightarrow> 'c str list \<Rightarrow> 'c payload \<Rightarrow> nat" where
  "occurrence_score lower keywords p =
     sum_list (map (\<lambda>keyword. occurrences (lower (text_of p)) (lower keyword)) keywords)"

section \<open>Lemmas on the deduplication and the sorts\<close>

subsection \<open>first_by\<close>

lemma first_by_subseq: "subseq (first_by k xs seen) xs"
  by (induction xs arbitrary: seen) auto

lemma first_by_set: "set (first_by k xs seen) \<subseteq> set xs"
  by (induction xs arbitrary: seen) auto

lemma first_by_keys: "k ` set (first_by k xs seen) = k ` set xs - seen"
  by (induction xs arbitrary: seen) auto

lemma first_by_distinct: "distinct (map k (first_by k xs seen))"
proof (induction xs arbitrary: seen)
  case Nil
  show ?case by simp
next
  case (Cons x xs)
  have "k x \<notin> k ` set (first_by k xs (insert (k x) seen))"
    by (simp add: first_by_keys)
  with Cons show ?case by simp
qed

lemma first_by_filter:
  "filter (\<lambda>x. k x = v) (first_by k xs seen) =
     (if v \<in> seen then [] else take 1 (filter (\<lambda>x. k x = v) xs))"
proof (induction xs arbitrary: seen)
  case Nil
  show ?case by simp
next
  case (Cons x xs)
  show ?case
  proof (cases "k x \<in> seen")
    case True
    with Cons show ?thesis by auto
  next
    case False
    with Cons show ?thesis by auto
  qed
qed

lemma find_filter_Cons: "filter P xs = y # ys \<Longrightarrow> find P xs = Some y"
  by (induction xs) (auto split: if_splits)

lemma first_by_find:
  assumes "x \<in> set (first_by k xs {})"
  shows "find (\<lambda>y. k y = k x) xs = Some x"
proof -
  from assms have "x \<in> set (filter (\<lambda>y. k y = k x) (first_by k xs {}))" by simp
  then have mem: "x \<in> set (take 1 (filter (\<lambda>y. k y = k x) xs))"
    by (simp add: first_by_filter)
  then obtain y ys where ys: "filter (\<lambda>y. k y = k x) xs = y # ys"
    by (cases "filter (\<lambda>y. k y = k x) xs") auto
  with mem have "y = x" by simp
  with ys show ?thesis by (simp add: find_filter_Cons)
qed

subsection \<open>map_result and sorted_py\<close>

lemma map_result_Inr:
  "map_result f xs = Inr ys \<Longrightarrow> list_all2 (\<lambda>x y. f x = Inr y) xs ys"
  by (induction xs arbitrary: ys) (auto split: sum.splits)

lemma map_result_total:
  "(\<forall>x \<in> set xs. f x = Inr (g x)) \<Longrightarrow> map_result f xs = Inr (map g xs)"
  by (induction xs) auto

lemma map_snd_insort_decorated:
  "\<forall>p \<in> set ps. fst p = f (snd p) \<Longrightarrow>
     map snd (insort_key fst (f x, x) ps) = insort_key f x (map snd ps)"
  by (induction ps) auto

lemma sort_key_decorated:
  "map snd (sort_key fst (zip (map f xs) xs)) = sort_key f xs
   \<and> (\<forall>p \<in> set (sort_key fst (zip (map f xs) xs)). fst p = f (snd p))"
proof (induction xs)
  case Nil
  show ?case by simp
next
  case (Cons x xs)
  then show ?case by (auto simp: map_snd_insort_decorated set_insort_key)
qed

lemma sorted_py_ascending:
  assumes "\<forall>x \<in> set xs. key x = Inr (f x)"
  shows "sorted_py key False xs = Inr (sort_key f xs)"
proof -
  from assms have "map_result key xs = Inr (map f xs)" by (rule map_result_total)
  then show ?thesis by (simp add: sorted_py_def sort_key_decorated)
qed

lemma sorted_py_descending:
  assumes "\<forall>x \<in> set xs. key x = Inr (f x)"
  shows "sorted_py key True xs = Inr (rev (sort_key f (rev xs)))"
proof -
  from assms have m: "map_result key xs = Inr (map f xs)" by (rule map_result_total)
  have "zip (rev (map f xs)) (rev xs) = rev (zip (map f xs) xs)"
    by (rule zip_rev) simp
  then have "rev (zip (map f xs) xs) = zip (map f (rev xs)) (rev xs)"
    by (simp add: rev_map)
  moreover have "map snd (rev (sort_key fst (zip (map f (rev xs)) (rev xs)))) =
      rev (map snd (sort_key fst (zip (map f (rev xs)) (rev xs))))"
    by (simp only: rev_map)
  ultimately show ?thesis using m by (simp add: sorted_py_def sort_key_decorated)
qed

lemma sorted_py_keys:
  assumes "sorted_py key reverse xs = Inr ys" and "x \<in> set xs"
  shows "\<exists>k. key x = Inr k"
proof -
  from assms(1) obtain ks where "map_result key xs = Inr ks"
    by (auto simp: sorted_py_def split: sum.splits)
  then have "list_all2 (\<lambda>x y. key x = Inr y) xs ks" by (rule map_result_Inr)
  with assms(2) show ?thesis by (auto simp: list_all2_conv_all_nth in_set_conv_nth)
qed

subsection \<open>The deduplication loop and its provenance\<close>

lemma dedup_format_origin:
  "dedup_format cs seen out = Inr res \<Longrightarrow>
     \<exists>res'. res = out @ res' \<and>
       list_all2 originates_from res' (first_by chunk_number cs (Some ` seen))"
proof (induction cs arbitrary: seen out)
  case Nil
  then show ?case by simp
next
  case (Cons c cs)
  from Cons.prems obtain n where n: "chunk_number c = Some n"
    by (cases "chunk_number c") auto
  show ?case
  proof (cases "n \<in> seen")
    case True
    with Cons.prems n have "dedup_format cs seen out = Inr res" by simp
    from Cons.IH[OF this] True n show ?thesis by auto
  next
    case False
    with Cons.prems n obtain t pg where t: "chunk_text c = Some t"
      and pg: "page_number c = Some pg"
      and rec: "dedup_format cs (insert n seen) (out @ [\<lparr>content = t, page = pg\<rparr>]) = Inr res"
      by (auto split: option.splits)
    from Cons.IH[OF rec] obtain res' where
      res: "res = (out @ [\<lparr>content = t, page = pg\<rparr>]) @ res'" and
      all: "list_all2 originates_from res' (first_by chunk_number cs (Some ` insert n seen))"
      by blast
    have "originates_from \<lparr>content = t, page = pg\<rparr> c"
      by (simp add: originates_from_def t pg)
    with res all False n show ?thesis by auto
  qed
qed

lemma dedup_format_numbers:
  "dedup_format cs seen out = Inr res \<Longrightarrow> \<forall>c \<in> set cs. chunk_number c = Some (chunk_no c)"
proof (induction cs arbitrary: seen out)
  case Nil
  then show ?case by simp
next
  case (Cons c cs)
  from Cons.prems obtain n where n: "chunk_number c = Some n"
    by (cases "chunk_number c") auto
  from Cons.prems n obtain seen' out' where "dedup_format cs seen' out' = Inr res"
    by (auto split: if_splits option.splits)
  from Cons.IH[OF this] n show ?case by (simp add: chunk_no_def)
qed

subsection \<open>The retrieval loop\<close>

lemma collect_chunks_concat:
  "collect_chunks self embeddings st queries doc_id acc = Inr final \<Longrightarrow>
     \<exists>responses.
       list_all2 (\<lambda>q r. \<exists>v. embeddings q = Inr v \<and>
                    query_points self st (similarity_request (collection_name self) v doc_id) = Inr r)
         queries responses \<and>
       final = acc @ concat (map (map point_payload) responses)"
proof (induction queries arbitrary: acc)
  case Nil
  then show ?case by simp
next
  case (Cons q qs)
  from Cons.prems obtain v r where v: "embeddings q = Inr v"
    and r: "query_points self st (similarity_request (collection_name self) v doc_id) = Inr r"
    and rec: "collect_chunks self embeddings st qs doc_id (acc @ map point_payload r) = Inr final"
    by (auto split: sum.splits)
  from Cons.IH[OF rec] obtain rs where
    rs: "list_all2 (\<lambda>q r. \<exists>v. embeddings q = Inr v \<and>
                    query_points self st (similarity_request (collection_name self) v doc_id) = Inr r)
         qs rs" and
    final: "final = (acc @ map point_payload r) @ concat (map (map point_payload) rs)"
    by blast
  show ?case
  proof (intro exI[of _ "r # rs"] conjI)
    show "list_all2 (\<lambda>q r. \<exists>v. embeddings q = Inr v \<and>
                    query_points self st (similarity_request (collection_name self) v doc_id) = Inr r)
         (q # qs) (r # rs)"
      using v r rs by auto
    show "final = acc @ concat (map (map point_payload) (r # rs))"
      using final by simp
  qed
qed

subsection \<open>vector_search and its origins\<close>

lemma vector_search_Inr:
  assumes "vector_search self llm_service st queries doc_id = Inr resp"
  shows "\<exists>embeddings final.
           get_embeddings llm_service = Inr embeddings \<and>
           collect_chunks self embeddings st queries doc_id [] = Inr final \<and>
           dedup_format final {} [] = Inr (chunks resp) \<and>
           retrieved_chunks self llm_service st queries doc_id = final"
  using assms by (auto simp: vector_search_def retrieved_chunks_def split: sum.splits)

lemma vector_search_origin:
  assumes "vector_search self llm_service st queries doc_id = Inr resp"
  shows "list_all2 originates_from (chunks resp)
           (vector_search_origins self llm_service st queries doc_id)"
proof -
  from vector_search_Inr[OF assms] obtain final where
    d: "dedup_format final {} [] = Inr (chunks resp)" and
    f: "retrieved_chunks self llm_service st queries doc_id = final"
    by blast
  from dedup_format_origin[OF d] f show ?thesis
    by (simp add: vector_search_origins_def)
qed

lemma vector_search_numbers:
  assumes "vector_search self llm_service st queries doc_id = Inr resp"
  shows "\<forall>p \<in> set (retrieved_chunks self llm_service st queries doc_id).
           chunk_number p = Some (chunk_no p)"
proof -
  from vector_search_Inr[OF assms] obtain final where
    d: "dedup_format final {} [] = Inr (chunks resp)" and
    f: "retrieved_chunks self llm_service st queries doc_id = final"
    by blast
  from dedup_format_numbers[OF d] f show ?thesis by simp
qed

subsection \<open>hybrid_search and its origins\<close>

lemma first_by_sorted:
  "sorted (map f xs) \<Longrightarrow> sorted (map f (first_by k xs seen))"
proof (induction xs arbitrary: seen)
  case Nil
  show ?case by simp
next
  case (Cons x xs)
  have "set (first_by k xs (insert (k x) seen)) \<subseteq> set xs" by (rule first_by_set)
  with Cons show ?case by auto
qed

lemma chunk_number_key_Inr:
  "chunk_number_key c = Inr n \<Longrightarrow> chunk_number c = Some n \<and> chunk_no c = n"
  by (auto simp: chunk_number_key_def chunk_no_def split: option.splits)

lemma sorted_by_chunk_number:
  assumes "sorted_py chunk_number_key False xs = Inr ys"
  shows "ys = sort_key chunk_no xs \<and> (\<forall>p \<in> set xs. chunk_number p = Some (chunk_no p))"
proof -
  have k: "\<forall>p \<in> set xs. chunk_number_key p = Inr (chunk_no p)"
  proof
    fix p assume "p \<in> set xs"
    from sorted_py_keys[OF assms this] obtain n where n: "chunk_number_key p = Inr n" ..
    with chunk_number_key_Inr[OF n] show "chunk_number_key p = Inr (chunk_no p)" by simp
  qed
  from sorted_py_ascending[OF k] assms have "ys = sort_key chunk_no xs" by simp
  moreover from k have "\<forall>p \<in> set xs. chunk_number p = Some (chunk_no p)"
    by (auto dest: chunk_number_key_Inr)
  ultimately show ?thesis by simp
qed

lemma merge_results_origin:
  assumes "merge_results skc sem = Inr resp"
  shows "list_all2 originates_from (chunks resp) (merge_origins skc sem)"
    and "\<forall>p \<in> set (combined_chunks skc sem). chunk_number p = Some (chunk_no p)"
proof -
  from assms obtain ys where
    s: "sorted_py chunk_number_key False (combined_chunks skc sem) = Inr ys" and
    d: "dedup_format ys {} [] = Inr (chunks resp)"
    by (auto simp: merge_results_def split: sum.splits)
  from sorted_by_chunk_number[OF s] have
    ys: "ys = sort_key chunk_no (combined_chunks skc sem)" and
    n: "\<forall>p \<in> set (combined_chunks skc sem). chunk_number p = Some (chunk_no p)"
    by simp_all
  from dedup_format_origin[OF d] ys
  show "list_all2 originates_from (chunks resp) (merge_origins skc sem)"
    by (simp add: merge_origins_def)
  from n show "\<forall>p \<in> set (combined_chunks skc sem). chunk_number p = Some (chunk_no p)" .
qed

lemma merge_origins_set:
  "set (merge_origins skc sem) \<subseteq> set (combined_chunks skc sem)"
  using first_by_set[of chunk_number "sort_key chunk_no (combined_chunks skc sem)" "{}"]
  by (simp add: merge_origins_def)

lemma merge_origins_sorted: "sorted (map chunk_no (merge_origins skc sem))"
  unfolding merge_origins_def by (rule first_by_sorted) (rule sorted_sort_key)

lemma merge_origins_distinct: "distinct (map chunk_number (merge_origins skc sem))"
  unfolding merge_origins_def by (rule first_by_distinct)

lemma hybrid_search_Inr:
  assumes "hybrid_search self lower extract_keywords llm_service st query doc_id rules = Inr resp"
  shows "\<exists>skc sem.
           hybrid_candidates self lower extract_keywords llm_service st query doc_id rules
             = Inr (skc, sem) \<and>
           merge_results skc sem = Inr resp \<and>
           hybrid_search_origins self lower extract_keywords llm_service st query doc_id rules
             = merge_origins skc sem"
  using assms by (auto simp: hybrid_search_def hybrid_search_origins_def split: sum.splits)

lemma hybrid_search_origin:
  assumes "hybrid_search self lower extract_keywords llm_service st query doc_id rules = Inr resp"
  shows "list_all2 originates_from (chunks resp)
           (hybrid_search_origins self lower extract_keywords llm_service st query doc_id rules)"
proof -
  from hybrid_search_Inr[OF assms] obtain skc sem where
    m: "merge_results skc sem = Inr resp" and
    h: "hybrid_search_origins self lower extract_keywords llm_service st query doc_id rules
          = merge_origins skc sem"
    by blast
  from merge_results_origin(1)[OF m] h show ?thesis by simp
qed

lemma hybrid_search_numbers:
  assumes "hybrid_search self lower extract_keywords llm_service st query doc_id rules = Inr resp"
  shows "\<forall>p \<in> set (hybrid_search_origins self lower extract_keywords llm_service st query doc_id rules).
           chunk_number p = Some (chunk_no p)"
proof -
  from hybrid_search_Inr[OF assms] obtain skc sem where
    m: "merge_results skc sem = Inr resp" and
    h: "hybrid_search_origins self lower extract_keywords llm_service st query doc_id rules
          = merge_origins skc sem"
    by blast
  from merge_results_origin(2)[OF m] merge_origins_set[of skc sem] h show ?thesis by auto
qed

lemma distinct_chunk_no:
  assumes "distinct (map chunk_number ps)" and "\<forall>p \<in> set ps. chunk_number p = Some (chunk_no p)"
  shows "distinct (map chunk_no ps)"
proof -
  from assms(2) have "map chunk_number ps = map Some (map chunk_no ps)" by simp
  with assms(1) show ?thesis by (simp add: distinct_map del: map_map) 
qed


section \<open>Deduplication and order of the results (C1, C2, C3)\<close>

text \<open>
  C1 (dedup invariant): in every result returned by \<^verbatim>\<open>vector_search\<close> or
  \<^verbatim>\<open>hybrid_search\<close>, entry by entry the output comes from the kept payloads, every
  kept payload has a chunk number, and the chunk numbers of the kept payloads are pairwise
  distinct.
\<close>

theorem dedup_invariant:
  "(vector_search self llm_service st queries doc_id = Inr resp \<longrightarrow>
      list_all2 originates_from (chunks resp)
        (vector_search_origins self llm_service st queries doc_id) \<and>
      (\<forall>p \<in> set (vector_search_origins self llm_service st queries doc_id).
         chunk_number p = Some (chunk_no p)) \<and>
      distinct (map chunk_no (vector_search_origins self llm_service st queries doc_id)))
   \<and>
   (hybrid_search self' lower extract_keywords llm_service' st' query doc_id' rules = Inr resp' \<longrightarrow>
      list_all2 originates_from (chunks resp')
        (hybrid_search_origins self' lower extract_keywords llm_service' st' query doc_id' rules) \<and>
      (\<forall>p \<in> set (hybrid_search_origins self' lower extract_keywords llm_service' st' query doc_id' rules).
         chunk_number p = Some (chunk_no p)) \<and>
      distinct (map chunk_no
        (hybrid_search_origins self' lower extract_keywords llm_service' st' query doc_id' rules)))"
proof (intro conjI impI)
  assume v: "vector_search self llm_service st queries doc_id = Inr resp"
  show "list_all2 originates_from (chunks resp)
        (vector_search_origins self llm_service st queries doc_id)"
    by (rule vector_search_origin[OF v])
  have "set (vector_search_origins self llm_service st queries doc_id)
          \<subseteq> set (retrieved_chunks self llm_service st queries doc_id)"
    unfolding vector_search_origins_def by (rule first_by_set)
  with vector_search_numbers[OF v]
  show n: "\<forall>p \<in> set (vector_search_origins self llm_service st queries doc_id).
         chunk_number p = Some (chunk_no p)"
    by auto
  have "distinct (map chunk_number (vector_search_origins self llm_service st queries doc_id))"
    unfolding vector_search_origins_def by (rule first_by_distinct)
  then show "distinct (map chunk_no (vector_search_origins self llm_service st queries doc_id))"
    using n by (rule distinct_chunk_no)
next
  assume h: "hybrid_search self' lower extract_keywords llm_service' st' query doc_id' rules = Inr resp'"
  show "list_all2 originates_from (chunks resp')
        (hybrid_search_origins self' lower extract_keywords llm_service' st' query doc_id' rules)"
    by (rule hybrid_search_origin[OF h])
  show n: "\<forall>p \<in> set (hybrid_search_origins self' lower extract_keywords llm_service' st' query doc_id' rules).
         chunk_number p = Some (chunk_no p)"
    by (rule hybrid_search_numbers[OF h])
  from hybrid_search_Inr[OF h] obtain skc sem where
    "hybrid_search_origins self' lower extract_keywords llm_service' st' query doc_id' rules
       = merge_origins skc sem"
    by blast
  then have "distinct (map chunk_number
      (hybrid_search_origins self' lower extract_keywords llm_service' st' query doc_id' rules))"
    by (simp add: merge_origins_distinct)
  then show "distinct (map chunk_no
      (hybrid_search_origins self' lower extract_keywords llm_service' st' query doc_id' rules))"
    using n by (rule distinct_chunk_no)
qed

theorem dedup_invariant_witness:
  "vector_search memory_index example_llm example_store [''q1'', ''q2''] ''D''
     = Inr \<lparr>message = ''Query processed successfully.'',
            chunks = [\<lparr>content = ''c'', page = 2\<rparr>, \<lparr>content = ''Foo foo FOO'', page = 1\<rparr>,
                      \<lparr>content = ''e'', page = 3\<rparr>]\<rparr>
   \<and> hybrid_search memory_index latin1_lower example_extract example_llm example_store ''q'' ''D'' [''foo'']
     = Inr \<lparr>message = ''Query processed successfully.'',
            chunks = [\<lparr>content = ''Foo foo FOO'', page = 1\<rparr>, \<lparr>content = ''a foo'', page = 1\<rparr>,
                      \<lparr>content = ''d'', page = 2\<rparr>]\<rparr>
   \<and> distinct (map chunk_no
        (vector_search_origins memory_index example_llm example_store [''q1'', ''q2''] ''D''))
   \<and> distinct (map chunk_no
        (hybrid_search_origins memory_index latin1_lower example_extract example_llm example_store
           ''q'' ''D'' [''foo'']))"
proof -
  have v: "vector_search memory_index example_llm example_store [''q1'', ''q2''] ''D''
     = Inr \<lparr>message = ''Query processed successfully.'',
            chunks = [\<lparr>content = ''c'', page = 2\<rparr>, \<lparr>content = ''Foo foo FOO'', page = 1\<rparr>,
                      \<lparr>content = ''e'', page = 3\<rparr>]\<rparr>"
    by code_simp
  have h: "hybrid_search memory_index latin1_lower example_extract example_llm example_store
             ''q'' ''D'' [''foo'']
     = Inr \<lparr>message = ''Query processed successfully.'',
            chunks = [\<lparr>content = ''Foo foo FOO'', page = 1\<rparr>, \<lparr>content = ''a foo'', page = 1\<rparr>,
                      \<lparr>content = ''d'', page = 2\<rparr>]\<rparr>"
    by code_simp
  from dedup_invariant[where self = memory_index and llm_service = example_llm
      and st = example_store and queries = "[''q1'', ''q2'']" and doc_id = "''D''"
      and self' = memory_index and extract_keywords = example_extract
      and llm_service' = example_llm and st' = example_store and query = "''q''"
      and doc_id' = "''D''" and rules = "[''foo'']"] v h
  show ?thesis by blast
qed

text \<open>
  C2 (hybrid ordering): the entries of a result of \<^verbatim>\<open>hybrid_search\<close> come, in
  order, from payloads whose chunk numbers are strictly ascending; in particular this
  holds of every non-empty result.
\<close>

theorem hybrid_ordering:
  assumes "hybrid_search self lower extract_keywords llm_service st query doc_id rules = Inr resp"
  shows "list_all2 originates_from (chunks resp)
           (hybrid_search_origins self lower extract_keywords llm_service st query doc_id rules)
       \<and> (\<forall>p \<in> set (hybrid_search_origins self lower extract_keywords llm_service st query doc_id rules).
            chunk_number p = Some (chunk_no p))
       \<and> sorted_wrt (<)
           (map chunk_no
              (hybrid_search_origins self lower extract_keywords llm_service st query doc_id rules))"
proof -
  let ?os = "hybrid_search_origins self lower extract_keywords llm_service st query doc_id rules"
  from hybrid_search_Inr[OF assms] obtain skc sem where os: "?os = merge_origins skc sem"
    by blast
  have n: "\<forall>p \<in> set ?os. chunk_number p = Some (chunk_no p)"
    by (rule hybrid_search_numbers[OF assms])
  have "distinct (map chunk_number ?os)" by (simp add: os merge_origins_distinct)
  then have "distinct (map chunk_no ?os)" using n by (rule distinct_chunk_no)
  moreover have "sorted (map chunk_no ?os)" by (simp add: os merge_origins_sorted)
  ultimately have "sorted_wrt (<) (map chunk_no ?os)" by (simp add: strict_sorted_iff)
  with hybrid_search_origin[OF assms] n show ?thesis by blast
qed

theorem hybrid_ordering_witness:
  "hybrid_search memory_index latin1_lower example_extract example_llm example_store ''q'' ''D'' [''foo'']
     = Inr \<lparr>message = ''Query processed successfully.'',
            chunks = [\<lparr>content = ''Foo foo FOO'', page = 1\<rparr>, \<lparr>content = ''a foo'', page = 1\<rparr>,
                      \<lparr>content = ''d'', page = 2\<rparr>]\<rparr>
   \<and> map chunk_no (hybrid_search_origins memory_index latin1_lower example_extract example_llm
        example_store ''q'' ''D'' [''foo'']) = [1, 2, 4]
   \<and> sorted_wrt (<) (map chunk_no (hybrid_search_origins memory_index latin1_lower example_extract
        example_llm example_store ''q'' ''D'' [''foo'']))"
proof -
  have h: "hybrid_search memory_index latin1_lower example_extract example_llm example_store
             ''q'' ''D'' [''foo'']
     = Inr \<lparr>message = ''Query processed successfully.'',
            chunks = [\<lparr>content = ''Foo foo FOO'', page = 1\<rparr>, \<lparr>content = ''a foo'', page = 1\<rparr>,
                      \<lparr>content = ''d'', page = 2\<rparr>]\<rparr>"
    by code_simp
  have o: "map chunk_no (hybrid_search_origins memory_index latin1_lower example_extract example_llm
        example_store ''q'' ''D'' [''foo'']) = [1, 2, 4]"
    by code_simp
  from hybrid_ordering[OF h] h o show ?thesis by blast
qed

text \<open>
  C3 (first-occurrence order of \<^verbatim>\<open>vector_search\<close>): when the search returns, the
  embedding object was obtained and every query was embedded and answered by the store; \<^verbatim>\<open>final_chunks\<close> is the
  concatenation of the per-query payload lists in query order; the kept payloads are a
  subsequence of it (their order is not changed), every chunk number of the concatenation
  is kept, and each kept payload is the first of the concatenation with its chunk number.
  The output is the formatting of the kept payloads. With \<open>q1\<close> matching chunks 3, 1 and
  \<open>q2\<close> matching 1, 5 the chunk order is 3, 1, 5.
\<close>

theorem vector_search_first_occurrence_order:
  assumes "vector_search self llm_service st queries doc_id = Inr resp"
  shows "\<exists>embeddings responses.
           get_embeddings llm_service = Inr embeddings \<and>
           list_all2 (\<lambda>q r. \<exists>v. embeddings q = Inr v \<and>
                        query_points self st
                          (similarity_request (collection_name self) v doc_id) = Inr r)
             queries responses \<and>
           retrieved_chunks self llm_service st queries doc_id
             = concat (map (map point_payload) responses) \<and>
           list_all2 originates_from (chunks resp)
             (vector_search_origins self llm_service st queries doc_id) \<and>
           subseq (vector_search_origins self llm_service st queries doc_id)
             (retrieved_chunks self llm_service st queries doc_id) \<and>
           chunk_number ` set (vector_search_origins self llm_service st queries doc_id)
             = chunk_number ` set (retrieved_chunks self llm_service st queries doc_id) \<and>
           (\<forall>p \<in> set (vector_search_origins self llm_service st queries doc_id).
              find (\<lambda>x. chunk_number x = chunk_number p)
                (retrieved_chunks self llm_service st queries doc_id) = Some p)"
proof -
  let ?final = "retrieved_chunks self llm_service st queries doc_id"
  let ?os = "vector_search_origins self llm_service st queries doc_id"
  from vector_search_Inr[OF assms] obtain embeddings where
    g: "get_embeddings llm_service = Inr embeddings" and
    c: "collect_chunks self embeddings st queries doc_id [] = Inr ?final"
    by auto
  from collect_chunks_concat[OF c] obtain responses where
    r: "list_all2 (\<lambda>q r. \<exists>v. embeddings q = Inr v \<and>
                        query_points self st
                          (similarity_request (collection_name self) v doc_id) = Inr r)
             queries responses" and
    f: "?final = concat (map (map point_payload) responses)"
    by auto
  have s: "subseq ?os ?final"
    unfolding vector_search_origins_def by (rule first_by_subseq)
  have k: "chunk_number ` set ?os = chunk_number ` set ?final"
    unfolding vector_search_origins_def by (simp add: first_by_keys)
  have fi: "\<forall>p \<in> set ?os. find (\<lambda>x. chunk_number x = chunk_number p) ?final = Some p"
    unfolding vector_search_origins_def by (auto intro: first_by_find)
  from g r f vector_search_origin[OF assms] s k fi show ?thesis by blast
qed

theorem vector_search_first_occurrence_order_witness:
  "vector_search memory_index example_llm example_store [''q1'', ''q2''] ''D''
     = Inr \<lparr>message = ''Query processed successfully.'',
            chunks = [\<lparr>content = ''c'', page = 2\<rparr>, \<lparr>content = ''Foo foo FOO'', page = 1\<rparr>,
                      \<lparr>content = ''e'', page = 3\<rparr>]\<rparr>
   \<and> map chunk_no (retrieved_chunks memory_index example_llm example_store
        [''q1'', ''q2''] ''D'') = [3, 1, 1, 5]
   \<and> map chunk_no (vector_search_origins memory_index example_llm example_store
        [''q1'', ''q2''] ''D'') = [3, 1, 5]
   \<and> subseq (vector_search_origins memory_index example_llm example_store
        [''q1'', ''q2''] ''D'')
       (retrieved_chunks memory_index example_llm example_store [''q1'', ''q2''] ''D'')"
proof -
  have v: "vector_search memory_index example_llm example_store [''q1'', ''q2''] ''D''
     = Inr \<lparr>message = ''Query processed successfully.'',
            chunks = [\<lparr>content = ''c'', page = 2\<rparr>, \<lparr>content = ''Foo foo FOO'', page = 1\<rparr>,
                      \<lparr>content = ''e'', page = 3\<rparr>]\<rparr>"
    by code_simp
  have r: "map chunk_no (retrieved_chunks memory_index example_llm example_store
        [''q1'', ''q2''] ''D'') = [3, 1, 1, 5]"
    by code_simp
  have o: "map chunk_no (vector_search_origins memory_index example_llm example_store
        [''q1'', ''q2''] ''D'') = [3, 1, 5]"
    by code_simp
  from vector_search_first_occurrence_order[OF v] v r o show ?thesis by blast
qed


section \<open>The merge of keyword and semantic chunks (C5)\<close>

lemma filter_singleton_index:
  "filter P xs = [k] \<Longrightarrow>
     \<exists>i < length xs. xs ! i = k \<and> (\<forall>j < length xs. P (xs ! j) \<longrightarrow> j = i)"
proof (induction xs)
  case Nil
  then show ?case by simp
next
  case (Cons x xs)
  show ?case
  proof (cases "P x")
    case True
    with Cons.prems have k: "x = k" and none: "filter P xs = []" by simp_all
    from none have "\<forall>j < length xs. \<not> P (xs ! j)"
      by (auto simp: filter_empty_conv)
    then have "\<forall>j < length (x # xs). P ((x # xs) ! j) \<longrightarrow> j = 0"
      by (auto simp: nth_Cons split: nat.splits)
    with k show ?thesis by (intro exI[of _ 0]) simp
  next
    case False
    with Cons.prems have "filter P xs = [k]" by simp
    from Cons.IH[OF this] obtain i where i: "i < length xs" "xs ! i = k"
      and u: "\<forall>j < length xs. P (xs ! j) \<longrightarrow> j = i"
      by blast
    have "\<forall>j < length (x # xs). P ((x # xs) ! j) \<longrightarrow> j = Suc i"
      using False u by (auto simp: nth_Cons split: nat.splits)
    with i show ?thesis by (intro exI[of _ "Suc i"]) simp
  qed
qed

lemma merge_origins_filter:
  assumes "\<forall>p \<in> set (combined_chunks skc sem). chunk_number p = Some (chunk_no p)"
  shows "filter (\<lambda>x. chunk_number x = Some n) (merge_origins skc sem) =
           take 1 (filter (\<lambda>x. chunk_number x = Some n) (take 20 skc @ sem))"
proof -
  let ?xs = "combined_chunks skc sem"
  have eq: "\<And>ys. set ys = set ?xs \<Longrightarrow>
      filter (\<lambda>x. chunk_number x = Some n) ys = filter (\<lambda>x. chunk_no x = n) ys"
    using assms by (intro filter_cong) auto
  have "filter (\<lambda>x. chunk_number x = Some n) (merge_origins skc sem) =
          take 1 (filter (\<lambda>x. chunk_number x = Some n) (sort_key chunk_no ?xs))"
    by (simp add: merge_origins_def first_by_filter)
  also have "filter (\<lambda>x. chunk_number x = Some n) (sort_key chunk_no ?xs) =
          filter (\<lambda>x. chunk_no x = n) (sort_key chunk_no ?xs)"
    by (rule eq) simp
  also have "\<dots> = filter (\<lambda>x. chunk_no x = n) ?xs" by (rule sort_key_stable)
  also have "\<dots> = filter (\<lambda>x. chunk_number x = Some n) ?xs" by (rule eq[symmetric]) simp
  finally show ?thesis by (simp add: combined_chunks_def)
qed

text \<open>
  C5 (the keyword-origin copy wins): when a chunk number \<open>n\<close> occurs among the top 20
  keyword-ranked chunks (whether or not it also occurs among the semantic chunks), exactly
  one kept payload has the number \<open>n\<close>, it is the first payload with that number of the
  top 20 keyword-ranked chunks, and the output entry at its position carries its text and
  page.
\<close>

theorem keyword_copy_wins:
  assumes "hybrid_candidates self lower extract_keywords llm_service st query doc_id rules
             = Inr (skc, sem)"
    and "hybrid_search self lower extract_keywords llm_service st query doc_id rules = Inr resp"
    and "p \<in> set (take 20 skc)" and "chunk_number p = Some n"
  shows "\<exists>k i. find (\<lambda>x. chunk_number x = Some n) (take 20 skc) = Some k \<and>
           i < length (chunks resp) \<and>
           hybrid_search_origins self lower extract_keywords llm_service st query doc_id rules ! i = k \<and>
           originates_from (chunks resp ! i) k \<and>
           (\<forall>j < length (chunks resp).
              chunk_number
                (hybrid_search_origins self lower extract_keywords llm_service st query doc_id rules ! j)
                = Some n \<longrightarrow> j = i)"
proof -
  let ?os = "hybrid_search_origins self lower extract_keywords llm_service st query doc_id rules"
  let ?P = "\<lambda>x. chunk_number x = Some n"
  from assms(1,2) have m: "merge_results skc sem = Inr resp" and os: "?os = merge_origins skc sem"
    by (simp_all add: hybrid_search_def hybrid_search_origins_def)
  from assms(3,4) have "p \<in> set (filter ?P (take 20 skc))" by simp
  then obtain k ks where ks: "filter ?P (take 20 skc) = k # ks"
    by (cases "filter ?P (take 20 skc)") auto
  then have fk: "find ?P (take 20 skc) = Some k" by (rule find_filter_Cons)
  from merge_origins_filter[OF merge_results_origin(2)[OF m], of n] ks os
  have "filter ?P ?os = [k]" by simp
  from filter_singleton_index[OF this] obtain i where
    i: "i < length ?os" "?os ! i = k" and u: "\<forall>j < length ?os. ?P (?os ! j) \<longrightarrow> j = i"
    by blast
  from merge_results_origin(1)[OF m] os have la: "list_all2 originates_from (chunks resp) ?os"
    by simp
  then have len: "length (chunks resp) = length ?os" by (rule list_all2_lengthD)
  from la i(1) len have "originates_from (chunks resp ! i) (?os ! i)"
    by (simp add: list_all2_nthD2)
  with fk i u len show ?thesis by auto
qed

theorem keyword_copy_wins_witness:
  "hybrid_candidates memory_index latin1_lower example_extract example_llm duplicate_store
       ''dup'' ''D'' [''foo'']
     = Inr ([point_payload (stored_chunk 1 ''D'' 1 1 ''Foo foo FOO''),
             point_payload (stored_chunk 2 ''D'' 2 1 ''a foo'')],
            [point_payload (stored_chunk 7 ''D'' 2 9 ''paraphrase''),
             point_payload (stored_chunk 4 ''D'' 4 2 ''d'')])
   \<and> hybrid_search memory_index latin1_lower example_extract example_llm duplicate_store
       ''dup'' ''D'' [''foo'']
     = Inr \<lparr>message = ''Query processed successfully.'',
            chunks = [\<lparr>content = ''Foo foo FOO'', page = 1\<rparr>, \<lparr>content = ''a foo'', page = 1\<rparr>,
                      \<lparr>content = ''d'', page = 2\<rparr>]\<rparr>
   \<and> (\<exists>k i. find (\<lambda>x. chunk_number x = Some 2)
                (take 20 [point_payload (stored_chunk 1 ''D'' 1 1 ''Foo foo FOO''),
                          point_payload (stored_chunk 2 ''D'' 2 1 ''a foo'')]) = Some k \<and>
          i < length (chunks \<lparr>message = ''Query processed successfully.'',
            chunks = [\<lparr>content = ''Foo foo FOO'', page = 1\<rparr>, \<lparr>content = ''a foo'', page = 1\<rparr>,
                      \<lparr>content = ''d'', page = 2\<rparr>]\<rparr>) \<and>
          hybrid_search_origins memory_index latin1_lower example_extract example_llm duplicate_store
            ''dup'' ''D'' [''foo''] ! i = k \<and>
          originates_from
            (chunks \<lparr>message = ''Query processed successfully.'',
            chunks = [\<lparr>content = ''Foo foo FOO'', page = 1\<rparr>, \<lparr>content = ''a foo'', page = 1\<rparr>,
                      \<lparr>content = ''d'', page = 2\<rparr>]\<rparr> ! i) k \<and>
          (\<forall>j < length (chunks \<lparr>message = ''Query processed successfully.'',
            chunks = [\<lparr>content = ''Foo foo FOO'', page = 1\<rparr>, \<lparr>content = ''a foo'', page = 1\<rparr>,
                      \<lparr>content = ''d'', page = 2\<rparr>]\<rparr>).
              chunk_number
                (hybrid_search_origins memory_index latin1_lower example_extract example_llm duplicate_store
                   ''dup'' ''D'' [''foo''] ! j) = Some 2 \<longrightarrow> j = i))"
proof -
  let ?skc = "[point_payload (stored_chunk 1 ''D'' 1 1 ''Foo foo FOO''),
               point_payload (stored_chunk 2 ''D'' 2 1 ''a foo'')]"
  let ?sem = "[point_payload (stored_chunk 7 ''D'' 2 9 ''paraphrase''),
               point_payload (stored_chunk 4 ''D'' 4 2 ''d'')]"
  let ?resp = "\<lparr>message = ''Query processed successfully.'',
            chunks = [\<lparr>content = ''Foo foo FOO'', page = 1\<rparr>, \<lparr>content = ''a foo'', page = 1\<rparr>,
                      \<lparr>content = ''d'', page = 2\<rparr>]\<rparr>"
  have c: "hybrid_candidates memory_index latin1_lower example_extract example_llm duplicate_store
       ''dup'' ''D'' [''foo''] = Inr (?skc, ?sem)"
    by code_simp
  have h: "hybrid_search memory_index latin1_lower example_extract example_llm duplicate_store
       ''dup'' ''D'' [''foo''] = Inr ?resp"
    by code_simp
  have p: "point_payload (stored_chunk 2 ''D'' 2 1 ''a foo'') \<in> set (take 20 ?skc)"
    by simp
  have n: "chunk_number (point_payload (stored_chunk 2 ''D'' 2 1 ''a foo'')) = Some 2"
    by (simp add: stored_chunk_def)
  note r = keyword_copy_wins[OF c h p n]
  show ?thesis
    apply (rule conjI)
     apply (rule c)
    apply (rule conjI)
     apply (rule h)
    apply (rule r)
    done
qed


section \<open>Caps and document scoping under the store contract (C4, C8)\<close>

subsection \<open>The in-memory store keeps the contract\<close>

lemma store_query_points_filter:
  assumes "store_query_points dflt st req = Inr points" and "pt \<in> set points"
  shows "filter_holds (req_filter req) (point_payload pt)"
  using assms
  by (auto simp: store_query_points_def Let_def split: option.splits dest!: in_set_takeD)

lemma store_query_points_limit:
  assumes "store_query_points dflt st req = Inr points" and "req_limit req = Some n"
  shows "length points \<le> n"
  using assms by (auto simp: store_query_points_def Let_def)

lemma memory_index_honors_filter: "honors_filter memory_index st"
  unfolding honors_filter_def memory_index_def
  by (auto simp: filter_holds_def list_all_iff dest!: store_query_points_filter)

lemma memory_index_honors_limit: "honors_limit memory_index st"
  unfolding honors_limit_def memory_index_def
  by (auto dest: store_query_points_limit)

lemma unbounded_index_honors_filter: "honors_filter unbounded_index st"
  unfolding honors_filter_def unbounded_index_def
  by (auto simp: filter_holds_def list_all_iff dest!: store_query_points_filter)

lemma unbounded_index_honors_limit: "honors_limit unbounded_index st"
  unfolding honors_limit_def unbounded_index_def
  by (auto dest: store_query_points_limit)

subsection \<open>What a successful sort returns\<close>

lemma sorted_py_Inr:
  assumes "sorted_py key reverse xs = Inr ys"
  shows "(\<forall>x \<in> set xs. key x = Inr (projr (key x))) \<and>
         ys = (if reverse then rev (sort_key (\<lambda>x. projr (key x)) (rev xs))
               else sort_key (\<lambda>x. projr (key x)) xs)"
proof -
  have k: "\<forall>x \<in> set xs. key x = Inr (projr (key x))"
  proof
    fix x assume "x \<in> set xs"
    from sorted_py_keys[OF assms this] obtain v where "key x = Inr v" ..
    then show "key x = Inr (projr (key x))" by simp
  qed
  show ?thesis
  proof (cases reverse)
    case True
    with sorted_py_descending[OF k] assms k show ?thesis by simp
  next
    case False
    with sorted_py_ascending[OF k] assms k show ?thesis by simp
  qed
qed

lemma sorted_py_set:
  assumes "sorted_py key reverse xs = Inr ys"
  shows "set ys = set xs" and "length ys = length xs"
  using sorted_py_Inr[OF assms] by (auto split: if_splits)

subsection \<open>The two phases of hybrid_search\<close>

lemma hybrid_candidates_Inr:
  assumes "hybrid_candidates self lower extract_keywords llm_service st query doc_id rules
             = Inr (skc, sem)"
  shows "\<exists>embeddings keywords.
           get_embeddings llm_service = Inr embeddings \<and>
           extract_keywords query rules llm_service = Inr keywords \<and>
           keyword_phase self lower st keywords doc_id = Inr skc \<and>
           semantic_phase self embeddings st query doc_id = Inr sem"
  using assms by (auto simp: hybrid_candidates_def split: sum.splits)

lemma semantic_phase_Inr:
  assumes "semantic_phase self embeddings st query doc_id = Inr sem"
  shows "\<exists>v points. embeddings query = Inr v \<and>
           query_points self st (similarity_request (collection_name self) v doc_id)
             = Inr points \<and>
           sem = map point_payload points"
  using assms by (auto simp: semantic_phase_def split: sum.splits)

lemma keyword_phase_Inr:
  assumes "keyword_phase self lower st keywords doc_id = Inr skc"
  shows "skc = [] \<or>
         (\<exists>kws points. keywords = Some kws \<and> kws \<noteq> [] \<and>
            query_points self st (keyword_request (collection_name self) kws doc_id)
              = Inr points \<and>
            sorted_py (keyword_key lower kws) True (map point_payload points) = Inr skc)"
  using assms by (auto simp: keyword_phase_def split: option.splits if_splits sum.splits)

lemma semantic_phase_collect:
  "collect_chunks self embeddings st [query] doc_id [] =
     semantic_phase self embeddings st query doc_id"
  by (simp add: semantic_phase_def split: sum.splits)

subsection \<open>Limits and filters of the requests\<close>

lemma similarity_request_limit:
  assumes "honors_limit self st"
    and "query_points self st (similarity_request coll v doc_id) = Inr points"
  shows "length points \<le> 40"
  using assms by (auto simp: honors_limit_def similarity_request_def)

lemma similarity_request_document:
  assumes "honors_filter self st"
    and "query_points self st (similarity_request coll v doc_id) = Inr points"
    and "pt \<in> set points"
  shows "document_id (point_payload pt) = Some doc_id"
proof -
  have "FieldCondition ''document_id'' (MatchValue doc_id)
          \<in> set (must (req_filter (similarity_request coll v doc_id)))"
    by (simp add: similarity_request_def document_filter_def)
  with assms have "condition_holds (FieldCondition ''document_id'' (MatchValue doc_id))
      (point_payload pt)"
    unfolding honors_filter_def by blast
  then show ?thesis by (simp add: payload_field_def)
qed

lemma keyword_request_document:
  assumes "honors_filter self st"
    and "query_points self st (keyword_request coll kws doc_id) = Inr points"
    and "pt \<in> set points"
  shows "document_id (point_payload pt) = Some doc_id"
proof -
  have "FieldCondition ''document_id'' (MatchValue doc_id)
          \<in> set (must (req_filter (keyword_request coll kws doc_id)))"
    by (simp add: keyword_request_def)
  with assms have "condition_holds (FieldCondition ''document_id'' (MatchValue doc_id))
      (point_payload pt)"
    unfolding honors_filter_def by blast
  then show ?thesis by (simp add: payload_field_def)
qed

lemma concat_length_bound:
  "\<forall>r \<in> set rs. length r \<le> n \<Longrightarrow> length (concat rs) \<le> n * length rs"
  by (induction rs) auto

lemma collect_chunks_limit:
  assumes "honors_limit self st"
    and "collect_chunks self embeddings st queries doc_id [] = Inr final"
  shows "\<exists>responses.
           list_all2 (\<lambda>q r. \<exists>v. embeddings q = Inr v \<and>
                        query_points self st
                          (similarity_request (collection_name self) v doc_id) = Inr r)
             queries responses \<and>
           (\<forall>r \<in> set responses. length r \<le> 40) \<and>
           final = concat (map (map point_payload) responses) \<and>
           length final \<le> 40 * length queries"
proof -
  from collect_chunks_concat[OF assms(2)] obtain responses where
    r: "list_all2 (\<lambda>q r. \<exists>v. embeddings q = Inr v \<and>
                        query_points self st
                          (similarity_request (collection_name self) v doc_id) = Inr r)
             queries responses" and
    f: "final = concat (map (map point_payload) responses)"
    by auto
  have b: "\<forall>r \<in> set responses. length r \<le> 40"
  proof
    fix x assume "x \<in> set responses"
    then obtain i where i: "i < length responses" "responses ! i = x"
      by (auto simp: in_set_conv_nth)
    with r obtain v where
      "query_points self st (similarity_request (collection_name self) v doc_id) = Inr x"
      by (auto simp: list_all2_conv_all_nth)
    with assms(1) show "length x \<le> 40" by (rule similarity_request_limit)
  qed
  then have "\<forall>r \<in> set (map (map point_payload) responses). length r \<le> 40" by simp
  then have "length final \<le> 40 * length (map (map point_payload) responses)"
    unfolding f by (rule concat_length_bound)
  moreover from r have "length responses = length queries"
    by (simp add: list_all2_lengthD)
  ultimately have "length final \<le> 40 * length queries" by simp
  with r b f show ?thesis by blast
qed

lemma collect_chunks_document:
  assumes "honors_filter self st"
    and "collect_chunks self embeddings st queries doc_id [] = Inr final"
    and "p \<in> set final"
  shows "document_id p = Some doc_id"
proof -
  from collect_chunks_concat[OF assms(2)] obtain responses where
    r: "list_all2 (\<lambda>q r. \<exists>v. embeddings q = Inr v \<and>
                        query_points self st
                          (similarity_request (collection_name self) v doc_id) = Inr r)
             queries responses" and
    f: "final = concat (map (map point_payload) responses)"
    by auto
  from assms(3) f obtain x pt where x: "x \<in> set responses" and pt: "pt \<in> set x"
    and p: "p = point_payload pt"
    by auto
  from x obtain i where i: "i < length responses" "responses ! i = x"
    by (auto simp: in_set_conv_nth)
  with r obtain v where
    "query_points self st (similarity_request (collection_name self) v doc_id) = Inr x"
    by (auto simp: list_all2_conv_all_nth)
  from similarity_request_document[OF assms(1) this pt] p show ?thesis by simp
qed

lemma hybrid_candidates_document:
  assumes "honors_filter self st"
    and "hybrid_candidates self lower extract_keywords llm_service st query doc_id rules
           = Inr (skc, sem)"
    and "p \<in> set skc \<union> set sem"
  shows "document_id p = Some doc_id"
proof -
  from hybrid_candidates_Inr[OF assms(2)] obtain embeddings ks where
    k: "keyword_phase self lower st ks doc_id = Inr skc" and
    s: "semantic_phase self embeddings st query doc_id = Inr sem"
    by blast
  from assms(3) show ?thesis
  proof
    assume pk: "p \<in> set skc"
    then have "skc \<noteq> []" by auto
    with keyword_phase_Inr[OF k] obtain kws points where
      q: "query_points self st (keyword_request (collection_name self) kws doc_id)
            = Inr points" and
      so: "sorted_py (keyword_key lower kws) True (map point_payload points) = Inr skc"
      by blast
    from sorted_py_set(1)[OF so] pk obtain pt where "pt \<in> set points" "p = point_payload pt"
      by auto
    with keyword_request_document[OF assms(1) q] show ?thesis by simp
  next
    assume ps: "p \<in> set sem"
    from semantic_phase_Inr[OF s] obtain v points where
      q: "query_points self st (similarity_request (collection_name self) v doc_id)
            = Inr points" and
      sem: "sem = map point_payload points"
      by blast
    from ps sem obtain pt where "pt \<in> set points" "p = point_payload pt" by auto
    with similarity_request_document[OF assms(1) q] show ?thesis by simp
  qed
qed

lemma hybrid_candidates_limit:
  assumes "honors_limit self st"
    and "hybrid_candidates self lower extract_keywords llm_service st query doc_id rules
           = Inr (skc, sem)"
  shows "length sem \<le> 40"
proof -
  from hybrid_candidates_Inr[OF assms(2)] obtain embeddings where
    s: "semantic_phase self embeddings st query doc_id = Inr sem"
    by blast
  from semantic_phase_Inr[OF s] obtain v points where
    q: "query_points self st (similarity_request (collection_name self) v doc_id)
          = Inr points" and
    sem: "sem = map point_payload points"
    by blast
  from similarity_request_limit[OF assms(1) q] sem show ?thesis by simp
qed

lemma merge_results_take: "merge_results skc sem = merge_results (take 20 skc) sem"
  by (simp add: merge_results_def combined_chunks_def)

lemma first_by_length: "length (first_by k xs seen) \<le> length xs"
  using first_by_subseq[of k xs seen] by (rule list_emb_length)

lemma merge_origins_take: "merge_origins skc sem = merge_origins (take 20 skc) sem"
  by (simp add: merge_origins_def combined_chunks_def)

lemma merge_origins_length: "length (merge_origins skc sem) \<le> 20 + length sem"
proof -
  have "length (merge_origins skc sem) \<le> length (sort_key chunk_no (combined_chunks skc sem))"
    unfolding merge_origins_def by (rule first_by_length)
  also have "\<dots> \<le> 20 + length sem" by (simp add: combined_chunks_def)
  finally show ?thesis .
qed

text \<open>
  C4 (keyword cap and semantic cap): every similarity request carries
  \<^verbatim>\<open>limit=40\<close>, so with a store that keeps the limit each query of
  \<^verbatim>\<open>vector_search\<close> contributes at most 40 payloads and the semantic phase of
  \<^verbatim>\<open>hybrid_search\<close> yields at most 40. The merge takes the first 20 keyword-ranked
  chunks however many there are: \<^verbatim>\<open>hybrid_search\<close> returns what the merge of the
  first 20 with the semantic chunks returns, at most 20 keyword chunks and at most 60
  chunks in all enter the merge, and every kept payload is one of the first 20 keyword
  chunks or a semantic chunk. A result of \<^verbatim>\<open>vector_search\<close> has at most 40 entries
  for each query, a result of \<^verbatim>\<open>hybrid_search\<close> at most 60.
\<close>

theorem retrieval_caps:
  assumes "honors_limit self st"
  shows "req_limit (similarity_request (collection_name self) v doc_id) = Some 40 \<and>
    (collect_chunks self embeddings st queries doc_id [] = Inr final \<longrightarrow>
       (\<exists>responses.
          list_all2 (\<lambda>q r. \<exists>v. embeddings q = Inr v \<and>
                       query_points self st
                         (similarity_request (collection_name self) v doc_id) = Inr r)
            queries responses \<and>
          (\<forall>r \<in> set responses. length r \<le> 40) \<and>
          final = concat (map (map point_payload) responses))) \<and>
    (vector_search self llm_service st queries doc_id = Inr resp \<longrightarrow>
       length (retrieved_chunks self llm_service st queries doc_id) \<le> 40 * length queries \<and>
       length (chunks resp) \<le> 40 * length queries) \<and>
    (hybrid_candidates self lower extract_keywords llm_service st query doc_id rules
         = Inr (skc, sem) \<longrightarrow>
       length sem \<le> 40 \<and>
       combined_chunks skc sem = take 20 skc @ sem \<and>
       length (take 20 skc) \<le> 20 \<and>
       length (combined_chunks skc sem) \<le> 60 \<and>
       merge_results skc sem = merge_results (take 20 skc) sem \<and>
       set (merge_origins skc sem) \<subseteq> set (take 20 skc) \<union> set sem \<and>
       hybrid_search self lower extract_keywords llm_service st query doc_id rules
         = merge_results (take 20 skc) sem \<and>
       hybrid_search_origins self lower extract_keywords llm_service st query doc_id rules
         = merge_origins (take 20 skc) sem) \<and>
    (hybrid_search self lower extract_keywords llm_service st query doc_id rules = Inr resp' \<longrightarrow>
       length (chunks resp') \<le> 60)"
proof (intro conjI impI)
  show "req_limit (similarity_request (collection_name self) v doc_id) = Some 40"
    by (simp add: similarity_request_def)
next
  assume "collect_chunks self embeddings st queries doc_id [] = Inr final"
  from collect_chunks_limit[OF assms this]
  show "\<exists>responses.
          list_all2 (\<lambda>q r. \<exists>v. embeddings q = Inr v \<and>
                       query_points self st
                         (similarity_request (collection_name self) v doc_id) = Inr r)
            queries responses \<and>
          (\<forall>r \<in> set responses. length r \<le> 40) \<and>
          final = concat (map (map point_payload) responses)"
    by blast
next
  assume v: "vector_search self llm_service st queries doc_id = Inr resp"
  let ?final = "retrieved_chunks self llm_service st queries doc_id"
  from vector_search_Inr[OF v] obtain emb where
    c: "collect_chunks self emb st queries doc_id [] = Inr ?final"
    by auto
  from collect_chunks_limit[OF assms c]
  show f: "length ?final \<le> 40 * length queries" by blast
  from vector_search_origin[OF v]
  have "length (chunks resp) = length (vector_search_origins self llm_service st queries doc_id)"
    by (rule list_all2_lengthD)
  also have "\<dots> \<le> length ?final"
    unfolding vector_search_origins_def by (rule first_by_length)
  finally show "length (chunks resp) \<le> 40 * length queries" using f by simp
next
  assume c: "hybrid_candidates self lower extract_keywords llm_service st query doc_id rules
         = Inr (skc, sem)"
  show s: "length sem \<le> 40" by (rule hybrid_candidates_limit[OF assms c])
  show "combined_chunks skc sem = take 20 skc @ sem" by (simp add: combined_chunks_def)
  show "length (take 20 skc) \<le> 20" by simp
  from s show "length (combined_chunks skc sem) \<le> 60" by (simp add: combined_chunks_def)
  show "merge_results skc sem = merge_results (take 20 skc) sem" by (rule merge_results_take)
  from merge_origins_set[of skc sem]
  show "set (merge_origins skc sem) \<subseteq> set (take 20 skc) \<union> set sem"
    by (simp add: combined_chunks_def)
  from c show "hybrid_search self lower extract_keywords llm_service st query doc_id rules
         = merge_results (take 20 skc) sem"
    by (simp add: hybrid_search_def merge_results_take[symmetric])
  from c show "hybrid_search_origins self lower extract_keywords llm_service st query doc_id rules
         = merge_origins (take 20 skc) sem"
    by (simp add: hybrid_search_origins_def merge_origins_take[symmetric])
next
  assume h: "hybrid_search self lower extract_keywords llm_service st query doc_id rules = Inr resp'"
  from hybrid_search_Inr[OF h] obtain skc sem where
    c: "hybrid_candidates self lower extract_keywords llm_service st query doc_id rules
          = Inr (skc, sem)" and
    o: "hybrid_search_origins self lower extract_keywords llm_service st query doc_id rules
          = merge_origins skc sem"
    by blast
  from hybrid_search_origin[OF h] o
  have "length (chunks resp') = length (merge_origins skc sem)"
    by (simp add: list_all2_lengthD)
  also have "\<dots> \<le> 20 + length sem" by (rule merge_origins_length)
  also have "\<dots> \<le> 60" using hybrid_candidates_limit[OF assms c] by simp
  finally show "length (chunks resp') \<le> 60" .
qed



theorem retrieval_caps_witness:
  "honors_limit unbounded_index big_store \<and>
   collect_chunks unbounded_index example_embed big_store [''all''] ''D'' []
      = Inr (map point_payload (take 40 big_store)) \<and>
   vector_search unbounded_index example_llm big_store [''all''] ''D''
      = Inr \<lparr>message = ''Query processed successfully.'',
        chunks = map (\<lambda>i. \<lparr>content = ''foo'', page = 1\<rparr>) [1..<41]\<rparr> \<and>
   hybrid_candidates unbounded_index latin1_lower example_extract example_llm big_store
      ''all'' ''D'' [''foo'']
      = Inr ((map point_payload big_store), (map point_payload (take 40 big_store))) \<and>
   hybrid_search unbounded_index latin1_lower example_extract example_llm big_store
      ''all'' ''D'' [''foo'']
      = Inr \<lparr>message = ''Query processed successfully.'',
        chunks = map (\<lambda>i. \<lparr>content = ''foo'', page = 1\<rparr>) [1..<41]\<rparr> \<and>
   length (map point_payload big_store) = 45 \<and>
   length (take 20 (map point_payload big_store)) = 20 \<and>
   length (map point_payload (take 40 big_store)) = 40 \<and>
   (\<exists>responses.
      list_all2 (\<lambda>q r. \<exists>v. example_embed q = Inr v \<and>
                   query_points unbounded_index big_store
                     (similarity_request (collection_name unbounded_index) v ''D'') = Inr r)
        [''all''] responses \<and>
      (\<forall>r \<in> set responses. length r \<le> 40) \<and>
      (map point_payload (take 40 big_store)) = concat (map (map point_payload) responses)) \<and>
   (length (retrieved_chunks unbounded_index example_llm big_store [''all''] ''D'') \<le> 40 * length [''all''] \<and>
    length (chunks \<lparr>message = ''Query processed successfully.'',
        chunks = map (\<lambda>i. \<lparr>content = ''foo'', page = 1\<rparr>) [1..<41]\<rparr>) \<le> 40 * length [''all'']) \<and>
   (length (map point_payload (take 40 big_store)) \<le> 40 \<and>
    combined_chunks (map point_payload big_store) (map point_payload (take 40 big_store)) = take 20 (map point_payload big_store) @ (map point_payload (take 40 big_store)) \<and>
    length (take 20 (map point_payload big_store)) \<le> 20 \<and>
    length (combined_chunks (map point_payload big_store) (map point_payload (take 40 big_store))) \<le> 60 \<and>
    merge_results (map point_payload big_store) (map point_payload (take 40 big_store)) = merge_results (take 20 (map point_payload big_store)) (map point_payload (take 40 big_store)) \<and>
    set (merge_origins (map point_payload big_store) (map point_payload (take 40 big_store))) \<subseteq> set (take 20 (map point_payload big_store)) \<union> set (map point_payload (take 40 big_store)) \<and>
    hybrid_search unbounded_index latin1_lower example_extract example_llm big_store
      ''all'' ''D'' [''foo'']
      = merge_results (take 20 (map point_payload big_store)) (map point_payload (take 40 big_store)) \<and>
    hybrid_search_origins unbounded_index latin1_lower example_extract example_llm big_store
      ''all'' ''D'' [''foo'']
      = merge_origins (take 20 (map point_payload big_store)) (map point_payload (take 40 big_store))) \<and>
   length (chunks \<lparr>message = ''Query processed successfully.'',
        chunks = map (\<lambda>i. \<lparr>content = ''foo'', page = 1\<rparr>) [1..<41]\<rparr>) \<le> 60"
proof -
  have l: "honors_limit unbounded_index big_store" by (rule unbounded_index_honors_limit)
  have c: "collect_chunks unbounded_index example_embed big_store [''all''] ''D'' []
      = Inr (map point_payload (take 40 big_store))"
    by code_simp
  have v: "vector_search unbounded_index example_llm big_store [''all''] ''D''
      = Inr \<lparr>message = ''Query processed successfully.'',
        chunks = map (\<lambda>i. \<lparr>content = ''foo'', page = 1\<rparr>) [1..<41]\<rparr>"
    by code_simp
  have h: "hybrid_candidates unbounded_index latin1_lower example_extract example_llm big_store
      ''all'' ''D'' [''foo'']
      = Inr ((map point_payload big_store), (map point_payload (take 40 big_store)))"
    by code_simp
  have hs: "hybrid_search unbounded_index latin1_lower example_extract example_llm big_store
      ''all'' ''D'' [''foo'']
      = Inr \<lparr>message = ''Query processed successfully.'',
        chunks = map (\<lambda>i. \<lparr>content = ''foo'', page = 1\<rparr>) [1..<41]\<rparr>"
    by code_simp
  have n1: "length (map point_payload big_store) = 45" by code_simp
  have n2: "length (take 20 (map point_payload big_store)) = 20" by code_simp
  have n3: "length (map point_payload (take 40 big_store)) = 40" by code_simp
  note t = retrieval_caps[OF l]
  note r1 = t[THEN conjunct2, THEN conjunct1, THEN mp, OF c]
  note r2 = t[THEN conjunct2, THEN conjunct2, THEN conjunct1, THEN mp, OF v]
  note r3 = t[THEN conjunct2, THEN conjunct2, THEN conjunct2, THEN conjunct1, THEN mp, OF h]
  note r4 = t[THEN conjunct2, THEN conjunct2, THEN conjunct2, THEN conjunct2, THEN mp, OF hs]
  show ?thesis
    apply (rule conjI[OF l])
    apply (rule conjI[OF c])
    apply (rule conjI[OF v])
    apply (rule conjI[OF h])
    apply (rule conjI[OF hs])
    apply (rule conjI[OF n1])
    apply (rule conjI[OF n2])
    apply (rule conjI[OF n3])
    apply (rule conjI[OF r1])
    apply (rule conjI[OF r2])
    apply (rule conjI[OF r3 r4])
    done
qed

text \<open>
  C8 (document scoping): with a store that honors the \<^verbatim>\<open>must\<close> conditions of a
  filter, every payload \<^verbatim>\<open>vector_search\<close> retrieves and keeps, every payload of the
  keyword phase and of the semantic phase of \<^verbatim>\<open>hybrid_search\<close>, and every payload
  \<^verbatim>\<open>hybrid_search\<close> keeps has \<^verbatim>\<open>document_id\<close> equal to the document id of
  the call; the output entries are the formatting of the kept payloads.
\<close>

theorem document_scoping:
  assumes "honors_filter self st"
  shows "(vector_search self llm_service st queries doc_id = Inr resp \<longrightarrow>
            list_all2 originates_from (chunks resp)
              (vector_search_origins self llm_service st queries doc_id) \<and>
            (\<forall>p \<in> set (retrieved_chunks self llm_service st queries doc_id).
               document_id p = Some doc_id) \<and>
            (\<forall>p \<in> set (vector_search_origins self llm_service st queries doc_id).
               document_id p = Some doc_id)) \<and>
         (hybrid_candidates self lower extract_keywords llm_service st query doc_id rules
              = Inr (skc, sem) \<longrightarrow>
            (\<forall>p \<in> set skc \<union> set sem. document_id p = Some doc_id)) \<and>
         (hybrid_search self lower extract_keywords llm_service st query doc_id rules = Inr resp' \<longrightarrow>
            list_all2 originates_from (chunks resp')
              (hybrid_search_origins self lower extract_keywords llm_service st query doc_id rules) \<and>
            (\<forall>p \<in> set (hybrid_search_origins self lower extract_keywords llm_service st query
                           doc_id rules).
               document_id p = Some doc_id))"
proof (intro conjI impI)
  assume v: "vector_search self llm_service st queries doc_id = Inr resp"
  show "list_all2 originates_from (chunks resp)
          (vector_search_origins self llm_service st queries doc_id)"
    by (rule vector_search_origin[OF v])
  from vector_search_Inr[OF v] obtain embeddings where
    c: "collect_chunks self embeddings st queries doc_id []
          = Inr (retrieved_chunks self llm_service st queries doc_id)"
    by auto
  show r: "\<forall>p \<in> set (retrieved_chunks self llm_service st queries doc_id).
             document_id p = Some doc_id"
    using collect_chunks_document[OF assms c] by blast
  have "set (vector_search_origins self llm_service st queries doc_id)
          \<subseteq> set (retrieved_chunks self llm_service st queries doc_id)"
    unfolding vector_search_origins_def by (rule first_by_set)
  with r show "\<forall>p \<in> set (vector_search_origins self llm_service st queries doc_id).
                 document_id p = Some doc_id"
    by blast
next
  assume c: "hybrid_candidates self lower extract_keywords llm_service st query doc_id rules
               = Inr (skc, sem)"
  show "\<forall>p \<in> set skc \<union> set sem. document_id p = Some doc_id"
    using hybrid_candidates_document[OF assms c] by blast
next
  assume h: "hybrid_search self lower extract_keywords llm_service st query doc_id rules = Inr resp'"
  show "list_all2 originates_from (chunks resp')
          (hybrid_search_origins self lower extract_keywords llm_service st query doc_id rules)"
    by (rule hybrid_search_origin[OF h])
  from hybrid_search_Inr[OF h] obtain skc' sem' where
    c: "hybrid_candidates self lower extract_keywords llm_service st query doc_id rules
          = Inr (skc', sem')" and
    o: "hybrid_search_origins self lower extract_keywords llm_service st query doc_id rules
          = merge_origins skc' sem'"
    by blast
  have "set (merge_origins skc' sem') \<subseteq> set skc' \<union> set sem'"
    using merge_origins_set[of skc' sem'] set_take_subset[of 20 skc']
    by (auto simp: combined_chunks_def)
  with hybrid_candidates_document[OF assms c] o
  show "\<forall>p \<in> set (hybrid_search_origins self lower extract_keywords llm_service st query
                      doc_id rules).
          document_id p = Some doc_id"
    by auto
qed

theorem document_scoping_witness:
  "honors_filter memory_index example_store \<and>
   vector_search memory_index example_llm example_store [''q1'', ''q2''] ''D''
      = Inr \<lparr>message = ''Query processed successfully.'',
        chunks = [\<lparr>content = ''c'', page = 2\<rparr>, \<lparr>content = ''Foo foo FOO'', page = 1\<rparr>,
                  \<lparr>content = ''e'', page = 3\<rparr>]\<rparr> \<and>
   hybrid_candidates memory_index latin1_lower example_extract example_llm example_store ''q'' ''D'' [''foo'']
      = Inr ((map point_payload
        [stored_chunk 1 ''D'' 1 1 ''Foo foo FOO'', stored_chunk 2 ''D'' 2 1 ''a foo'']), (map point_payload
        [stored_chunk 4 ''D'' 4 2 ''d'', stored_chunk 2 ''D'' 2 1 ''a foo''])) \<and>
   hybrid_search memory_index latin1_lower example_extract example_llm example_store ''q'' ''D'' [''foo'']
      = Inr \<lparr>message = ''Query processed successfully.'',
        chunks = [\<lparr>content = ''Foo foo FOO'', page = 1\<rparr>, \<lparr>content = ''a foo'', page = 1\<rparr>,
                  \<lparr>content = ''d'', page = 2\<rparr>]\<rparr> \<and>
   list_all (\<lambda>p. document_id p = Some ''D'')
      (retrieved_chunks memory_index example_llm example_store [''q1'', ''q2''] ''D'') \<and>
   list_all (\<lambda>p. document_id p = Some ''D'')
      (vector_search_origins memory_index example_llm example_store [''q1'', ''q2''] ''D'') \<and>
   list_all (\<lambda>p. document_id p = Some ''D'')
      ((map point_payload
        [stored_chunk 1 ''D'' 1 1 ''Foo foo FOO'', stored_chunk 2 ''D'' 2 1 ''a foo'']) @ (map point_payload
        [stored_chunk 4 ''D'' 4 2 ''d'', stored_chunk 2 ''D'' 2 1 ''a foo''])) \<and>
   list_all (\<lambda>p. document_id p = Some ''D'')
      (hybrid_search_origins memory_index latin1_lower example_extract example_llm example_store ''q'' ''D'' [''foo''])"
proof -
  have f: "honors_filter memory_index example_store" by (rule memory_index_honors_filter)
  have v: "vector_search memory_index example_llm example_store [''q1'', ''q2''] ''D''
      = Inr \<lparr>message = ''Query processed successfully.'',
        chunks = [\<lparr>content = ''c'', page = 2\<rparr>, \<lparr>content = ''Foo foo FOO'', page = 1\<rparr>,
                  \<lparr>content = ''e'', page = 3\<rparr>]\<rparr>"
    by code_simp
  have c: "hybrid_candidates memory_index latin1_lower example_extract example_llm example_store ''q'' ''D'' [''foo'']
      = Inr ((map point_payload
        [stored_chunk 1 ''D'' 1 1 ''Foo foo FOO'', stored_chunk 2 ''D'' 2 1 ''a foo'']), (map point_payload
        [stored_chunk 4 ''D'' 4 2 ''d'', stored_chunk 2 ''D'' 2 1 ''a foo'']))"
    by code_simp
  have h: "hybrid_search memory_index latin1_lower example_extract example_llm example_store ''q'' ''D'' [''foo'']
      = Inr \<lparr>message = ''Query processed successfully.'',
        chunks = [\<lparr>content = ''Foo foo FOO'', page = 1\<rparr>, \<lparr>content = ''a foo'', page = 1\<rparr>,
                  \<lparr>content = ''d'', page = 2\<rparr>]\<rparr>"
    by code_simp
  note t = document_scoping[OF f]
  note r1 = t[THEN conjunct1, THEN mp, OF v]
  note r2 = t[THEN conjunct2, THEN conjunct1, THEN mp, OF c]
  note r3 = t[THEN conjunct2, THEN conjunct2, THEN mp, OF h]
  have a1: "list_all (\<lambda>p. document_id p = Some ''D'')
      (retrieved_chunks memory_index example_llm example_store [''q1'', ''q2''] ''D'')"
    unfolding list_all_iff by (rule r1[THEN conjunct2, THEN conjunct1])
  have a2: "list_all (\<lambda>p. document_id p = Some ''D'')
      (vector_search_origins memory_index example_llm example_store [''q1'', ''q2''] ''D'')"
    unfolding list_all_iff by (rule r1[THEN conjunct2, THEN conjunct2])
  have a3: "list_all (\<lambda>p. document_id p = Some ''D'')
      ((map point_payload
        [stored_chunk 1 ''D'' 1 1 ''Foo foo FOO'', stored_chunk 2 ''D'' 2 1 ''a foo'']) @ (map point_payload
        [stored_chunk 4 ''D'' 4 2 ''d'', stored_chunk 2 ''D'' 2 1 ''a foo'']))"
    unfolding list_all_iff set_append by (rule r2)
  have a4: "list_all (\<lambda>p. document_id p = Some ''D'')
      (hybrid_search_origins memory_index latin1_lower example_extract example_llm example_store ''q'' ''D'' [''foo''])"
    unfolding list_all_iff by (rule r3[THEN conjunct2])
  show ?thesis
    apply (rule conjI[OF f])
    apply (rule conjI[OF v])
    apply (rule conjI[OF c])
    apply (rule conjI[OF h])
    apply (rule conjI[OF a1])
    apply (rule conjI[OF a2])
    apply (rule conjI[OF a3 a4])
    done
qed


section \<open>Decomposed search and deletion (C9, C10)\<close>

text \<open>
  C9 as amended (\<^verbatim>\<open>decomposed_search\<close>): when the decomposer returns a dict with
  the sub-query list \<open>qs\<close>, the search is \<^verbatim>\<open>vector_search\<close> on \<open>qs\<close> and the
  same document: it fails as \<^verbatim>\<open>vector_search\<close> fails, and otherwise returns
  \<open>qs\<close> unchanged together with the chunks of \<^verbatim>\<open>vector_search\<close>. With the
  empty list no query is embedded and the store is not queried: the result is the empty
  chunk list when \<^verbatim>\<open>llm_service.get_embeddings()\<close> returns, and the exception of
  that call when it raises.
\<close>

theorem decomposed_search_is_vector_search:
  assumes "decompose_query query = Inr d" and "d ''sub-queries'' = Some qs"
  shows "decomposed_search self decompose_query llm_service st query doc_id rules =
           (case vector_search self llm_service st qs doc_id of
              Inl e \<Rightarrow> Inl e
            | Inr r \<Rightarrow> Inr \<lparr>sub_queries = qs, result_chunks = chunks r\<rparr>)
       \<and> (qs = [] \<longrightarrow> get_embeddings llm_service = Inr embeddings \<longrightarrow>
            decomposed_search self decompose_query llm_service st query doc_id rules =
              Inr \<lparr>sub_queries = [], result_chunks = []\<rparr>)
       \<and> (qs = [] \<longrightarrow> get_embeddings llm_service = Inl e \<longrightarrow>
            decomposed_search self decompose_query llm_service st query doc_id rules = Inl e)"
  using assms by (simp add: decomposed_search_def vector_search_def)

theorem decomposed_search_is_vector_search_witness:
  "example_decompose ''complex query'' = Inr [''sub-queries'' \<mapsto> [''q1'', ''q2'']]
   \<and> [''sub-queries'' \<mapsto> [''q1'', ''q2'']] ''sub-queries'' = Some [''q1'', ''q2'']
   \<and> decomposed_search memory_index example_decompose example_llm example_store
        ''complex query'' ''D'' ([] :: string list)
      = Inr \<lparr>sub_queries = [''q1'', ''q2''],
             result_chunks = [\<lparr>content = ''c'', page = 2\<rparr>,
                              \<lparr>content = ''Foo foo FOO'', page = 1\<rparr>,
                              \<lparr>content = ''e'', page = 3\<rparr>]\<rparr>
   \<and> example_decompose ''other'' = Inr [''sub-queries'' \<mapsto> []]
   \<and> get_embeddings example_llm = Inr example_embed
   \<and> decomposed_search memory_index example_decompose example_llm example_store
        ''other'' ''D'' ([] :: string list)
      = Inr \<lparr>sub_queries = [], result_chunks = []\<rparr>"
proof -
  have d: "example_decompose ''complex query'' = Inr [''sub-queries'' \<mapsto> [''q1'', ''q2'']]"
    by (simp add: example_decompose_def)
  have k: "[''sub-queries'' \<mapsto> [''q1'', ''q2'']] ''sub-queries'' = Some [''q1'', ''q2'']"
    by simp
  have v: "vector_search memory_index example_llm example_store [''q1'', ''q2''] ''D''
     = Inr \<lparr>message = ''Query processed successfully.'',
            chunks = [\<lparr>content = ''c'', page = 2\<rparr>, \<lparr>content = ''Foo foo FOO'', page = 1\<rparr>,
                      \<lparr>content = ''e'', page = 3\<rparr>]\<rparr>"
    by code_simp
  have a: "decomposed_search memory_index example_decompose example_llm example_store
        ''complex query'' ''D'' ([] :: string list)
      = Inr \<lparr>sub_queries = [''q1'', ''q2''],
             result_chunks = [\<lparr>content = ''c'', page = 2\<rparr>,
                              \<lparr>content = ''Foo foo FOO'', page = 1\<rparr>,
                              \<lparr>content = ''e'', page = 3\<rparr>]\<rparr>"
    using decomposed_search_is_vector_search[where decompose_query = example_decompose
        and query = "''complex query''" and d = "[''sub-queries'' \<mapsto> [''q1'', ''q2'']]"
        and qs = "[''q1'', ''q2'']" and self = memory_index and llm_service = example_llm
        and st = example_store and doc_id = "''D''" and rules = "[] :: string list",
        OF d k, THEN conjunct1]
    by (simp add: v)
  have d': "example_decompose ''other'' = Inr [''sub-queries'' \<mapsto> []]"
    by (simp add: example_decompose_def)
  have k': "[''sub-queries'' \<mapsto> ([] :: string list)] ''sub-queries'' = Some []"
    by simp
  have g: "get_embeddings example_llm = Inr example_embed"
    by (simp add: example_llm_def)
  have b: "decomposed_search memory_index example_decompose example_llm example_store
        ''other'' ''D'' ([] :: string list)
      = Inr \<lparr>sub_queries = [], result_chunks = []\<rparr>"
    by (rule decomposed_search_is_vector_search[where decompose_query = example_decompose
        and query = "''other''" and d = "[''sub-queries'' \<mapsto> []]"
        and qs = "[]" and self = memory_index and llm_service = example_llm
        and st = example_store and doc_id = "''D''" and rules = "[] :: string list",
        OF d' k', THEN conjunct2, THEN conjunct1, THEN mp, THEN mp, OF refl g])
  show ?thesis
    apply (rule conjI[OF d])
    apply (rule conjI[OF k])
    apply (rule conjI[OF a])
    apply (rule conjI[OF d'])
    apply (rule conjI[OF g b])
    done
qed

text \<open>
  C9 as stated fails: the decomposer returns the empty sub-query list and
  \<^verbatim>\<open>decomposed_search\<close> raises, because line 62 of \<^verbatim>\<open>vector_search\<close> asks the
  service for its embedding object before the loop over the queries, and that call raises.
\<close>

theorem decomposed_search_empty_counterexample:
  "example_decompose ''other'' = Inr [''sub-queries'' \<mapsto> []]
   \<and> decomposed_search memory_index example_decompose failing_llm example_store
        ''other'' ''D'' ([] :: string list)
      = Inl (CollaboratorError ''no embedding model'')"
  by (simp add: example_decompose_def decomposed_search_def vector_search_def failing_llm_def)

text \<open>
  C10 (\<^verbatim>\<open>delete_document\<close>): the call fails exactly when the delete of the store
  fails, with the same exception; when it returns, the store is the one the delete left
  and the result is the dict with status \<open>success\<close> and the message
  \<open>Document deleted successfully.\<close>, never a dict with status \<open>error\<close>.
\<close>

theorem delete_document_result:
  "(delete_document self st doc_id = Inl e \<longleftrightarrow>
      delete_points self st
        \<lparr>del_collection = collection_name self, del_selector = document_filter doc_id,
         del_wait = True\<rparr> = Inl e)
   \<and> (delete_document self st doc_id = Inr (st', r) \<longrightarrow>
        delete_points self st
          \<lparr>del_collection = collection_name self, del_selector = document_filter doc_id,
           del_wait = True\<rparr> = Inr st' \<and>
        r = [''status'' \<mapsto> ''success'', ''message'' \<mapsto> ''Document deleted successfully.''] \<and>
        r ''status'' = Some ''success'' \<and>
        r ''message'' = Some ''Document deleted successfully.'' \<and>
        r ''status'' \<noteq> Some ''error'')"
  by (auto simp: delete_document_def split: sum.splits)

theorem delete_document_result_witness:
  "delete_document memory_index example_store ''D''
     = Inr ([stored_chunk 6 ''E'' 1 1 ''foo of E''],
            [''status'' \<mapsto> ''success'', ''message'' \<mapsto> ''Document deleted successfully.''])
   \<and> [''status'' \<mapsto> ''success'', ''message'' \<mapsto> ''Document deleted successfully.'']
        ''status'' = Some ''success''
   \<and> [''status'' \<mapsto> ''success'', ''message'' \<mapsto> ''Document deleted successfully.'']
        ''status'' \<noteq> Some ''error''"
proof -
  have p: "delete_points memory_index example_store
        \<lparr>del_collection = collection_name memory_index, del_selector = document_filter ''D'',
         del_wait = True\<rparr> = Inr [stored_chunk 6 ''E'' 1 1 ''foo of E'']"
    by (simp add: memory_index_def memory_delete_points_def example_store_def
        stored_chunk_def filter_holds_def document_filter_def payload_field_def)
  then have d: "delete_document memory_index example_store ''D''
     = Inr ([stored_chunk 6 ''E'' 1 1 ''foo of E''],
            [''status'' \<mapsto> ''success'', ''message'' \<mapsto> ''Document deleted successfully.''])"
    by (simp add: delete_document_def)
  note t = delete_document_result[THEN conjunct2, THEN mp, OF d]
  from t have s: "[''status'' \<mapsto> ''success'', ''message'' \<mapsto> ''Document deleted successfully.'']
        ''status'' = Some ''success''"
    by (elim conjE)
  from t have n: "[''status'' \<mapsto> ''success'', ''message'' \<mapsto> ''Document deleted successfully.'']
        ''status'' \<noteq> Some ''error''"
    by (elim conjE)
  show ?thesis
    apply (rule conjI[OF d])
    apply (rule conjI[OF s n])
    done
qed


section \<open>No keywords (C6)\<close>

subsection \<open>Deduplication commutes with the stable sort\<close>

lemma first_by_Some:
  "\<forall>x \<in> set xs. k x = Some (f x) \<Longrightarrow> first_by k xs (Some ` S) = first_by f xs S"
proof (induction xs arbitrary: S)
  case Nil
  show ?case by simp
next
  case (Cons x xs)
  from Cons.prems have kx: "k x = Some (f x)" and rest: "\<forall>y \<in> set xs. k y = Some (f y)"
    by simp_all
  have ins: "insert (Some (f x)) (Some ` S) = Some ` insert (f x) S" by simp
  from Cons.IH[OF rest, of S] Cons.IH[OF rest, of "insert (f x) S"] kx
  show ?case by (auto simp: ins simp del: image_insert)
qed

lemma find_filter_conv:
  "find P xs = (case filter P xs of [] \<Rightarrow> None | y # ys \<Rightarrow> Some y)"
  by (induction xs) auto

lemma find_sort_key:
  "find (\<lambda>y. f y = v) (sort_key f xs) = find (\<lambda>y. f y = v) xs"
  by (simp add: find_filter_conv sort_key_stable)

lemma distinct_map_sort_key:
  "distinct (map f (sort_key f xs)) = distinct (map f xs)"
  by (induction xs) (simp_all add: distinct_insort_key)

lemma map_key_determines:
  assumes "map f xs = map f ys"
    and "\<forall>x \<in> set xs. g (f x) = x" and "\<forall>y \<in> set ys. g (f y) = y"
  shows "xs = ys"
proof -
  have "xs = map g (map f xs)" using assms(2) by (simp add: map_idI)
  also have "\<dots> = map g (map f ys)" by (simp only: assms(1))
  also have "\<dots> = ys" using assms(3) by (simp add: map_idI)
  finally show ?thesis .
qed

lemma first_by_sort_key:
  fixes f :: "'a \<Rightarrow> 'k::linorder"
  shows "first_by f (sort_key f xs) {} = sort_key f (first_by f xs {})"
proof -
  let ?L = "first_by f (sort_key f xs) {}"
  let ?R = "sort_key f (first_by f xs {})"
  define g where "g v = the (find (\<lambda>y. f y = v) xs)" for v
  have sl: "sorted (map f ?L)" by (rule first_by_sorted) (rule sorted_sort_key)
  have dl: "distinct (map f ?L)" by (rule first_by_distinct)
  have sr: "sorted (map f ?R)" by (rule sorted_sort_key)
  have dr: "distinct (map f ?R)" by (simp add: distinct_map_sort_key first_by_distinct)
  have "set (map f ?L) = f ` set xs" by (simp add: first_by_keys)
  moreover have "set (map f ?R) = f ` set xs" by (simp add: first_by_keys)
  ultimately have "set (map f ?L) = set (map f ?R)" by simp
  with sl dl sr dr have m: "map f ?L = map f ?R" by (rule sorted_distinct_set_unique)
  have gl: "\<forall>x \<in> set ?L. g (f x) = x"
  proof
    fix x assume "x \<in> set ?L"
    then have "find (\<lambda>y. f y = f x) (sort_key f xs) = Some x" by (rule first_by_find)
    then show "g (f x) = x" by (simp add: g_def find_sort_key)
  qed
  have gr: "\<forall>x \<in> set ?R. g (f x) = x"
  proof
    fix x assume "x \<in> set ?R"
    then have "x \<in> set (first_by f xs {})" by simp
    then have "find (\<lambda>y. f y = f x) xs = Some x" by (rule first_by_find)
    then show "g (f x) = x" by (simp add: g_def)
  qed
  from m gl gr show ?thesis by (rule map_key_determines)
qed

lemma dedup_format_succeeds:
  "\<forall>c \<in> set cs. chunk_number c \<noteq> None \<Longrightarrow>
   \<forall>p \<in> set (first_by chunk_number cs (Some ` seen)).
      chunk_text p \<noteq> None \<and> page_number p \<noteq> None \<Longrightarrow>
   \<exists>res. dedup_format cs seen out = Inr res"
proof (induction cs arbitrary: seen out)
  case Nil
  show ?case by simp
next
  case (Cons c cs)
  from Cons.prems(1) obtain n where n: "chunk_number c = Some n" by auto
  from Cons.prems(1) have rest: "\<forall>c \<in> set cs. chunk_number c \<noteq> None" by simp
  show ?case
  proof (cases "n \<in> seen")
    case True
    with Cons.prems(2) n
    have "\<forall>p \<in> set (first_by chunk_number cs (Some ` seen)).
            chunk_text p \<noteq> None \<and> page_number p \<noteq> None"
      by auto
    from Cons.IH[OF rest this, of out] True n show ?thesis by simp
  next
    case False
    with n have nin: "Some n \<notin> Some ` seen" by auto
    with Cons.prems(2) n obtain t pg where t: "chunk_text c = Some t"
      and pg: "page_number c = Some pg"
      by auto
    have ins: "insert (Some n) (Some ` seen) = Some ` insert n seen" by simp
    from Cons.prems(2) n nin
    have "\<forall>p \<in> set (first_by chunk_number cs (Some ` insert n seen)).
            chunk_text p \<noteq> None \<and> page_number p \<noteq> None"
      by (simp add: ins del: image_insert)
    from Cons.IH[OF rest this, of "out @ [\<lparr>content = t, page = pg\<rparr>]"] False n t pg
    show ?thesis by simp
  qed
qed

lemma list_all2_originates:
  assumes "list_all2 originates_from cs ps" and "p \<in> set ps"
  shows "chunk_text p \<noteq> None \<and> page_number p \<noteq> None"
proof -
  from assms(2) obtain i where "i < length ps" "ps ! i = p"
    by (auto simp: in_set_conv_nth)
  with assms(1) have "originates_from (cs ! i) p"
    by (auto simp: list_all2_conv_all_nth)
  then show ?thesis by (simp add: originates_from_def)
qed

lemma keyword_phase_empty:
  "keywords = None \<or> keywords = Some [] \<Longrightarrow> keyword_phase self lower st keywords doc_id = Inr []"
  by (auto simp: keyword_phase_def)

lemma merge_origins_no_keywords:
  assumes "\<forall>p \<in> set sem. chunk_number p = Some (chunk_no p)"
  shows "merge_origins [] sem = sort_key chunk_no (first_by chunk_number sem {})"
proof -
  from assms have s: "\<forall>p \<in> set (sort_key chunk_no sem). chunk_number p = Some (chunk_no p)"
    by simp
  have "merge_origins [] sem = first_by chunk_number (sort_key chunk_no sem) (Some ` {})"
    by (simp add: merge_origins_def combined_chunks_def)
  also have "\<dots> = first_by chunk_no (sort_key chunk_no sem) {}"
    by (rule first_by_Some[OF s])
  also have "\<dots> = sort_key chunk_no (first_by chunk_no sem {})"
    by (rule first_by_sort_key)
  also have "first_by chunk_no sem {} = first_by chunk_number sem (Some ` {})"
    by (rule first_by_Some[OF assms, symmetric])
  finally show ?thesis by simp
qed

text \<open>
  C6 (empty-keyword degeneration): when keyword extraction returns no keywords
  (\<^verbatim>\<open>None\<close> or the empty list), \<^verbatim>\<open>hybrid_search\<close> makes no keyword query: its
  result, success or failure, is that of obtaining the embedding object and merging the
  empty keyword list with the semantic response alone. When it returns, \<^verbatim>\<open>vector_search\<close> on the one query returns too,
  and the payloads \<^verbatim>\<open>hybrid_search\<close> keeps are the payloads \<^verbatim>\<open>vector_search\<close>
  keeps (the semantic result deduplicated by chunk number), sorted ascending by chunk
  number; the output is their formatting.
\<close>

theorem empty_keyword_degeneration:
  assumes "extract_keywords query rules llm_service = Inr keywords"
    and "keywords = None \<or> keywords = Some []"
  shows "hybrid_search self lower extract_keywords llm_service st query doc_id rules =
           (case get_embeddings llm_service of
              Inl e \<Rightarrow> Inl e
            | Inr embeddings \<Rightarrow>
                (case semantic_phase self embeddings st query doc_id of
                   Inl e \<Rightarrow> Inl e
                 | Inr semantic_response \<Rightarrow> merge_results [] semantic_response))
       \<and> (hybrid_search self lower extract_keywords llm_service st query doc_id rules = Inr resp \<longrightarrow>
            (\<exists>resp_v.
               vector_search self llm_service st [query] doc_id = Inr resp_v \<and>
               list_all2 originates_from (chunks resp_v)
                 (vector_search_origins self llm_service st [query] doc_id)) \<and>
            hybrid_search_origins self lower extract_keywords llm_service st query doc_id rules =
              sort_key chunk_no (vector_search_origins self llm_service st [query] doc_id) \<and>
            list_all2 originates_from (chunks resp)
              (sort_key chunk_no (vector_search_origins self llm_service st [query] doc_id)) \<and>
            sorted_wrt (<)
              (map chunk_no
                 (sort_key chunk_no (vector_search_origins self llm_service st [query] doc_id))))"
proof (intro conjI impI)
  from assms show eq: "hybrid_search self lower extract_keywords llm_service st query doc_id rules =
           (case get_embeddings llm_service of
              Inl e \<Rightarrow> Inl e
            | Inr embeddings \<Rightarrow>
                (case semantic_phase self embeddings st query doc_id of
                   Inl e \<Rightarrow> Inl e
                 | Inr semantic_response \<Rightarrow> merge_results [] semantic_response))"
    by (auto simp: hybrid_search_def hybrid_candidates_def keyword_phase_empty
          split: sum.splits)
  assume h: "hybrid_search self lower extract_keywords llm_service st query doc_id rules = Inr resp"
  let ?hs = "hybrid_search_origins self lower extract_keywords llm_service st query doc_id rules"
  let ?vs = "vector_search_origins self llm_service st [query] doc_id"
  from h eq obtain embeddings sem where
    g: "get_embeddings llm_service = Inr embeddings" and
    s: "semantic_phase self embeddings st query doc_id = Inr sem" and
    m: "merge_results [] sem = Inr resp"
    by (auto split: sum.splits)
  from assms g s have c: "hybrid_candidates self lower extract_keywords llm_service st query doc_id rules
      = Inr ([], sem)"
    by (simp add: hybrid_candidates_def keyword_phase_empty)
  then have ho: "?hs = merge_origins [] sem" by (simp add: hybrid_search_origins_def)
  from merge_results_origin(2)[OF m]
  have n: "\<forall>p \<in> set sem. chunk_number p = Some (chunk_no p)"
    by (simp add: combined_chunks_def)
  from s have col: "collect_chunks self embeddings st [query] doc_id [] = Inr sem"
    by (simp only: semantic_phase_collect)
  with g have vo: "?vs = first_by chunk_number sem {}"
    by (simp add: vector_search_origins_def retrieved_chunks_def)
  from merge_origins_no_keywords[OF n] ho vo
  show o: "?hs = sort_key chunk_no ?vs" by simp
  from hybrid_search_origin[OF h] o
  show la: "list_all2 originates_from (chunks resp) (sort_key chunk_no ?vs)" by simp
  have "\<forall>p \<in> set (first_by chunk_number sem (Some ` {})).
          chunk_text p \<noteq> None \<and> page_number p \<noteq> None"
  proof
    fix p assume "p \<in> set (first_by chunk_number sem (Some ` {}))"
    with vo have "p \<in> set (sort_key chunk_no ?vs)" by simp
    with la show "chunk_text p \<noteq> None \<and> page_number p \<noteq> None"
      by (rule list_all2_originates)
  qed
  moreover from n have "\<forall>c \<in> set sem. chunk_number c \<noteq> None" by simp
  ultimately obtain res where "dedup_format sem {} [] = Inr res"
    using dedup_format_succeeds[of sem "{}" "[]"] by blast
  with g col have v: "vector_search self llm_service st [query] doc_id
      = Inr \<lparr>message = ''Query processed successfully.'', chunks = res\<rparr>"
    by (simp add: vector_search_def)
  from vector_search_origin[OF v] v
  show "\<exists>resp_v.
          vector_search self llm_service st [query] doc_id = Inr resp_v \<and>
          list_all2 originates_from (chunks resp_v) ?vs"
    by blast
  have "sorted (map chunk_no ?hs)" by (simp add: ho merge_origins_sorted)
  moreover have "distinct (map chunk_no ?hs)"
  proof (rule distinct_chunk_no)
    show "distinct (map chunk_number ?hs)" by (simp add: ho merge_origins_distinct)
    show "\<forall>p \<in> set ?hs. chunk_number p = Some (chunk_no p)"
      by (rule hybrid_search_numbers[OF h])
  qed
  ultimately show "sorted_wrt (<) (map chunk_no (sort_key chunk_no ?vs))"
    by (simp add: o strict_sorted_iff)
qed

theorem empty_keyword_degeneration_witness:
  "example_extract ''q'' [] example_llm = Inr (Some []) \<and>
   hybrid_search memory_index latin1_lower example_extract example_llm example_store
       ''q'' ''D'' []
     = Inr \<lparr>message = ''Query processed successfully.'',
        chunks = [\<lparr>content = ''a foo'', page = 1\<rparr>, \<lparr>content = ''d'', page = 2\<rparr>]\<rparr> \<and>
   vector_search memory_index example_llm example_store [''q''] ''D''
     = Inr \<lparr>message = ''Query processed successfully.'',
        chunks = [\<lparr>content = ''d'', page = 2\<rparr>, \<lparr>content = ''a foo'', page = 1\<rparr>]\<rparr> \<and>
   map chunk_no (vector_search_origins memory_index example_llm example_store [''q''] ''D'')
     = [4, 2] \<and>
   hybrid_search_origins memory_index latin1_lower example_extract example_llm example_store
       ''q'' ''D'' []
     = sort_key chunk_no (vector_search_origins memory_index example_llm example_store [''q''] ''D'')"
proof -
  have e: "example_extract ''q'' [] example_llm = Inr (Some [])" by (simp add: example_extract_def)
  have k: "Some [] = (None :: string list option) \<or> Some [] = Some ([] :: string list)"
    by simp
  have h: "hybrid_search memory_index latin1_lower example_extract example_llm example_store
       ''q'' ''D'' []
     = Inr \<lparr>message = ''Query processed successfully.'',
        chunks = [\<lparr>content = ''a foo'', page = 1\<rparr>, \<lparr>content = ''d'', page = 2\<rparr>]\<rparr>"
    by code_simp
  have v: "vector_search memory_index example_llm example_store [''q''] ''D''
     = Inr \<lparr>message = ''Query processed successfully.'',
        chunks = [\<lparr>content = ''d'', page = 2\<rparr>, \<lparr>content = ''a foo'', page = 1\<rparr>]\<rparr>"
    by code_simp
  have o: "map chunk_no (vector_search_origins memory_index example_llm example_store [''q''] ''D'')
     = [4, 2]"
    by code_simp
  note t = empty_keyword_degeneration[where extract_keywords = example_extract
      and query = "''q''" and rules = "[]" and self = memory_index and lower = latin1_lower
      and llm_service = example_llm and st = example_store and doc_id = "''D''",
      OF e k, THEN conjunct2, THEN mp, OF h]
  note r = t[THEN conjunct2, THEN conjunct1]
  show ?thesis
    apply (rule conjI[OF e])
    apply (rule conjI[OF h])
    apply (rule conjI[OF v])
    apply (rule conjI[OF o r])
    done
qed


section \<open>The keyword ranking (C7)\<close>

subsection \<open>The keyword score and the count of occurrences\<close>

lemma occurrences_Nil: "occurrences [] sub = (if sub = [] then 1 else 0)"
  by (simp add: occurrences_def)

lemma occurrences_Cons:
  "occurrences (c # cs) sub = (if prefix sub (c # cs) then 1 else 0) + occurrences cs sub"
proof -
  have u: "[0..<Suc (length (c # cs))] = 0 # map Suc [0..<Suc (length cs)]"
    by (simp only: length_Cons map_Suc_upt upt_conv_Cons[of 0 "Suc (Suc (length cs))"])
  have "filter (\<lambda>i. prefix sub (drop i (c # cs))) (0 # map Suc [0..<Suc (length cs)]) =
      (if prefix sub (c # cs) then [0] else []) @
      map Suc (filter (\<lambda>i. prefix sub (drop i cs)) [0..<Suc (length cs)])"
    by (simp add: filter_map comp_def del: upt_Suc)
  then show ?thesis
    unfolding occurrences_def u by (simp del: upt_Suc)
qed

lemma occurrences_drop: "occurrences (drop n s) sub \<le> occurrences s sub"
proof (induction s arbitrary: n)
  case Nil
  show ?case by simp
next
  case (Cons c cs)
  show ?case
  proof (cases n)
    case 0
    then show ?thesis by simp
  next
    case (Suc m)
    have "occurrences (drop m cs) sub \<le> occurrences cs sub" by (rule Cons.IH)
    also have "\<dots> \<le> occurrences (c # cs) sub" by (simp add: occurrences_Cons)
    finally show ?thesis using Suc by simp
  qed
qed

lemma count_from_le_occurrences: "count_from s sub \<le> occurrences s sub"
proof (induction s sub rule: count_from.induct)
  case (1 sub)
  show ?case by simp
next
  case (2 c cs sub)
  show ?case
  proof (cases "prefix sub (c # cs)")
    case True
    with 2 have "count_from (drop (length sub - 1) cs) sub
        \<le> occurrences (drop (length sub - 1) cs) sub"
      by simp
    also have "\<dots> \<le> occurrences cs sub" by (rule occurrences_drop)
    finally show ?thesis using True by (simp add: occurrences_Cons)
  next
    case False
    with 2 show ?thesis by (simp add: occurrences_Cons)
  qed
qed

lemma count_from_disjoint:
  "sub \<noteq> [] \<Longrightarrow> count_from s sub * length sub \<le> length s"
proof (induction s sub rule: count_from.induct)
  case (1 sub)
  show ?case by simp
next
  case (2 c cs sub)
  show ?case
  proof (cases "prefix sub (c # cs)")
    case True
    then have len: "length sub \<le> Suc (length cs)"
      using prefix_length_le by fastforce
    from 2 True have "count_from (drop (length sub - 1) cs) sub * length sub
        \<le> length (drop (length sub - 1) cs)"
      by simp
    with len 2(3) True show ?thesis
      by (cases sub) (auto simp: algebra_simps)
  next
    case False
    with 2 show ?thesis by (simp add: le_SucI)
  qed
qed

lemma count_from_zero:
  "sub \<noteq> [] \<Longrightarrow> count_from s sub = 0 \<longleftrightarrow> occurrences s sub = 0"
proof (induction s)
  case Nil
  then show ?case by (simp add: occurrences_Nil)
next
  case (Cons c cs)
  then show ?case by (simp add: occurrences_Cons)
qed

lemma str_count_empty: "str_count s [] = length s + 1 \<and> occurrences s [] = length s + 1"
  by (simp add: str_count_def occurrences_def)

lemma keyword_key_Inr:
  "keyword_key lower kws c = Inr k \<Longrightarrow> chunk_text c = Some (text_of c) \<and> k = keyword_score lower kws c"
  by (auto simp: keyword_key_def keyword_score_def text_of_def split: option.splits)

lemma sorted_by_keyword_score:
  assumes "sorted_py (keyword_key lower kws) True xs = Inr ys"
  shows "ys = rev (sort_key (keyword_score lower kws) (rev xs)) \<and>
         (\<forall>c \<in> set xs. chunk_text c = Some (text_of c))"
proof -
  have k: "\<forall>c \<in> set xs. keyword_key lower kws c = Inr (keyword_score lower kws c)"
  proof
    fix c assume "c \<in> set xs"
    from sorted_py_keys[OF assms this] obtain n where n: "keyword_key lower kws c = Inr n" ..
    with keyword_key_Inr[OF n] show "keyword_key lower kws c = Inr (keyword_score lower kws c)" by simp
  qed
  from sorted_py_descending[OF k] assms
  have "ys = rev (sort_key (keyword_score lower kws) (rev xs))" by simp
  moreover from k have "\<forall>c \<in> set xs. chunk_text c = Some (text_of c)"
    by (auto dest: keyword_key_Inr)
  ultimately show ?thesis by simp
qed

lemma descending_stable_sort:
  fixes f :: "'a \<Rightarrow> 'k::linorder"
  shows "sorted (rev (map f (rev (sort_key f (rev xs)))))"
    and "filter (\<lambda>x. f x = k) (rev (sort_key f (rev xs))) = filter (\<lambda>x. f x = k) xs"
proof -
  have "rev (map f (rev (sort_key f (rev xs)))) = map f (sort_key f (rev xs))"
    by (simp add: rev_map)
  then show "sorted (rev (map f (rev (sort_key f (rev xs)))))"
    by (simp only: sorted_sort_key)
  have "filter (\<lambda>x. f x = k) (rev (sort_key f (rev xs))) =
      rev (filter (\<lambda>x. f x = k) (sort_key f (rev xs)))"
    by (simp only: rev_filter)
  also have "\<dots> = rev (filter (\<lambda>x. f x = k) (rev xs))" by (simp only: sort_key_stable)
  also have "\<dots> = filter (\<lambda>x. f x = k) xs" by (simp add: rev_filter)
  finally show "filter (\<lambda>x. f x = k) (rev (sort_key f (rev xs))) = filter (\<lambda>x. f x = k) xs" .
qed

lemma str_count_scan:
  assumes "sub \<noteq> []"
  shows "str_count [] sub = 0"
    and "prefix sub s \<Longrightarrow> str_count s sub = 1 + str_count (drop (length sub) s) sub"
    and "\<not> prefix sub (c # cs) \<Longrightarrow> str_count (c # cs) sub = str_count cs sub"
proof -
  from assms show "str_count [] sub = 0" by (simp add: str_count_def)
  show "str_count s sub = 1 + str_count (drop (length sub) s) sub" if "prefix sub s"
  proof (cases s)
    case Nil
    with that assms show ?thesis by simp
  next
    case (Cons a as)
    from assms have "drop (length sub) (a # as) = drop (length sub - 1) as"
      by (cases sub) simp_all
    with that assms Cons show ?thesis by (simp add: str_count_def)
  qed
  from assms show "str_count (c # cs) sub = str_count cs sub" if "\<not> prefix sub (c # cs)"
    using that by (simp add: str_count_def)
qed

lemma str_count_le_occurrences: "str_count s sub \<le> occurrences s sub"
proof (cases "sub = []")
  case True
  then show ?thesis using str_count_empty[of s] by simp
next
  case False
  then show ?thesis by (simp add: str_count_def count_from_le_occurrences)
qed

lemma str_count_scanning:
  "\<forall>s sub. str_count s [] = length s + 1 \<and>
            (sub \<noteq> [] \<longrightarrow> str_count [] sub = 0) \<and>
            (sub \<noteq> [] \<longrightarrow> prefix sub s \<longrightarrow>
               str_count s sub = 1 + str_count (drop (length sub) s) sub) \<and>
            (sub \<noteq> [] \<longrightarrow> \<not> prefix sub s \<longrightarrow> str_count s sub = str_count (tl s) sub) \<and>
            str_count s sub \<le> occurrences s sub"
proof (intro allI conjI impI)
  fix s sub :: "'a list"
  show "str_count s [] = length s + 1" using str_count_empty[of s] by simp
  show "str_count s sub \<le> occurrences s sub" by (rule str_count_le_occurrences)
  assume ne: "sub \<noteq> []"
  show "str_count [] sub = 0" by (rule str_count_scan(1)[OF ne])
  show "str_count s sub = 1 + str_count (drop (length sub) s) sub" if "prefix sub s"
    using that by (rule str_count_scan(2)[OF ne])
  show "str_count s sub = str_count (tl s) sub" if "\<not> prefix sub s"
  proof (cases s)
    case Nil
    then show ?thesis by simp
  next
    case (Cons a as)
    with that str_count_scan(3)[OF ne, of a as] show ?thesis by simp
  qed
qed

text \<open>
  C7 as amended (the keyword ranking): in the keyword phase every matched chunk has a text,
  and its score is the sum, over the extracted keywords, of what \<^verbatim>\<open>str.count\<close> gives
  for the lower-cased keyword in the lower-cased text (\<open>lower\<close> is any function, so
  this holds whatever \<^verbatim>\<open>str.lower\<close> does to a text). \<^verbatim>\<open>str.count\<close> scans from
  the left and resumes behind each occurrence it finds, so the occurrences it counts do not
  overlap, and it never counts more than the positions at which the keyword occurs. The
  matched chunks are returned in descending order of the score, chunks of equal score in
  the order in which the store returned them.
\<close>

theorem keyword_ranking:
  assumes "kws \<noteq> []"
    and "query_points self st (keyword_request (collection_name self) kws doc_id) = Inr points"
    and "keyword_phase self lower st (Some kws) doc_id = Inr skc"
  shows "(\<forall>c \<in> set (map point_payload points). chunk_text c = Some (text_of c)) \<and>
         (\<forall>c. keyword_score lower kws c =
              sum_list (map (\<lambda>keyword. str_count (lower (text_of c)) (lower keyword)) kws)) \<and>
         (\<forall>s sub. str_count s [] = length s + 1 \<and>
            (sub \<noteq> [] \<longrightarrow> str_count [] sub = 0) \<and>
            (sub \<noteq> [] \<longrightarrow> prefix sub s \<longrightarrow>
               str_count s sub = 1 + str_count (drop (length sub) s) sub) \<and>
            (sub \<noteq> [] \<longrightarrow> \<not> prefix sub s \<longrightarrow> str_count s sub = str_count (tl s) sub) \<and>
            str_count s sub \<le> occurrences s sub) \<and>
         sorted (rev (map (keyword_score lower kws) skc)) \<and>
         (\<forall>k. filter (\<lambda>c. keyword_score lower kws c = k) skc =
              filter (\<lambda>c. keyword_score lower kws c = k) (map point_payload points))"
proof -
  from assms have so: "sorted_py (keyword_key lower kws) True (map point_payload points) = Inr skc"
    by (simp add: keyword_phase_def)
  from sorted_by_keyword_score[OF so] have
    skc: "skc = rev (sort_key (keyword_score lower kws) (rev (map point_payload points)))" and
    hastext: "\<forall>c \<in> set (map point_payload points). chunk_text c = Some (text_of c)"
    by simp_all
  have score: "\<forall>c. keyword_score lower kws c =
      sum_list (map (\<lambda>keyword. str_count (lower (text_of c)) (lower keyword)) kws)"
    by (simp add: keyword_score_def count_keywords_def)
  have desc: "sorted (rev (map (keyword_score lower kws) skc))"
    unfolding skc by (rule descending_stable_sort(1))
  have stable: "\<forall>k. filter (\<lambda>c. keyword_score lower kws c = k) skc =
      filter (\<lambda>c. keyword_score lower kws c = k) (map point_payload points)"
    unfolding skc by (intro allI) (rule descending_stable_sort(2))
  from hastext score str_count_scanning desc stable show ?thesis by (intro conjI)
qed

theorem keyword_ranking_witness:
  "[''foo''] \<noteq> ([] :: string list) \<and>
   query_points memory_index ranking_store
      (keyword_request (collection_name memory_index) [''foo''] ''D'') = Inr ranking_store \<and>
   keyword_phase memory_index latin1_lower ranking_store (Some [''foo'']) ''D''
      = Inr (map point_payload
        [stored_chunk 1 ''D'' 1 1 ''Foo foo FOO'', stored_chunk 2 ''D'' 2 1 ''a foo'',
         stored_chunk 3 ''D'' 3 2 ''foo c'']) \<and>
   map (keyword_score latin1_lower [''foo'']) (map point_payload ranking_store) = [1, 1, 3] \<and>
   sorted (rev (map (keyword_score latin1_lower [''foo'']) (map point_payload
        [stored_chunk 1 ''D'' 1 1 ''Foo foo FOO'', stored_chunk 2 ''D'' 2 1 ''a foo'',
         stored_chunk 3 ''D'' 3 2 ''foo c'']))) \<and>
   filter (\<lambda>c. keyword_score latin1_lower [''foo''] c = 1) (map point_payload
        [stored_chunk 1 ''D'' 1 1 ''Foo foo FOO'', stored_chunk 2 ''D'' 2 1 ''a foo'',
         stored_chunk 3 ''D'' 3 2 ''foo c'']) =
      filter (\<lambda>c. keyword_score latin1_lower [''foo''] c = 1) (map point_payload ranking_store) \<and>
   [[CHR 0xE9], [CHR 0xC9]] \<noteq> ([] :: string list) \<and>
   query_points memory_index accent_store
      (keyword_request (collection_name memory_index) [[CHR 0xE9], [CHR 0xC9]] ''D'') = Inr accent_store \<and>
   keyword_phase memory_index latin1_lower accent_store (Some [[CHR 0xE9], [CHR 0xC9]]) ''D''
      = Inr (map point_payload (rev accent_store)) \<and>
   map (keyword_score latin1_lower [[CHR 0xE9], [CHR 0xC9]]) (map point_payload accent_store) = [2, 6] \<and>
   sorted (rev (map (keyword_score latin1_lower [[CHR 0xE9], [CHR 0xC9]])
      (map point_payload (rev accent_store))))"
proof -
  have ne: "[''foo''] \<noteq> ([] :: string list)" by simp
  have q: "query_points memory_index ranking_store
      (keyword_request (collection_name memory_index) [''foo''] ''D'') = Inr ranking_store"
    by code_simp
  have k: "keyword_phase memory_index latin1_lower ranking_store (Some [''foo'']) ''D''
      = Inr (map point_payload
        [stored_chunk 1 ''D'' 1 1 ''Foo foo FOO'', stored_chunk 2 ''D'' 2 1 ''a foo'',
         stored_chunk 3 ''D'' 3 2 ''foo c''])"
    by code_simp
  have m: "map (keyword_score latin1_lower [''foo'']) (map point_payload ranking_store) = [1, 1, 3]"
    by code_simp
  note t = keyword_ranking[OF ne q k]
  note d = t[THEN conjunct2, THEN conjunct2, THEN conjunct2, THEN conjunct1]
  note f = t[THEN conjunct2, THEN conjunct2, THEN conjunct2, THEN conjunct2, THEN spec]
  have ne2: "[[CHR 0xE9], [CHR 0xC9]] \<noteq> ([] :: string list)" by simp
  have q2: "query_points memory_index accent_store
      (keyword_request (collection_name memory_index) [[CHR 0xE9], [CHR 0xC9]] ''D'') = Inr accent_store"
    by code_simp
  have k2: "keyword_phase memory_index latin1_lower accent_store (Some [[CHR 0xE9], [CHR 0xC9]]) ''D''
      = Inr (map point_payload (rev accent_store))"
    by code_simp
  have m2: "map (keyword_score latin1_lower [[CHR 0xE9], [CHR 0xC9]]) (map point_payload accent_store) = [2, 6]"
    by code_simp
  note t2 = keyword_ranking[OF ne2 q2 k2]
  note d2 = t2[THEN conjunct2, THEN conjunct2, THEN conjunct2, THEN conjunct1]
  show ?thesis
    apply (rule conjI[OF ne])
    apply (rule conjI[OF q])
    apply (rule conjI[OF k])
    apply (rule conjI[OF m])
    apply (rule conjI[OF d])
    apply (rule conjI[OF f])
    apply (rule conjI[OF ne2])
    apply (rule conjI[OF q2])
    apply (rule conjI[OF k2])
    apply (rule conjI[OF m2 d2])
    done
qed

text \<open>
  C7 as stated fails: the chunk \<open>aaaa\<close> holds the keyword \<open>aa\<close> at three
  positions, and \<^verbatim>\<open>str.count\<close> counts two. Ranked by the number of positions it
  would come before the chunk \<open>aa aa\<close>; the keyword phase returns it behind, the two
  scores being equal.
\<close>

theorem keyword_score_counterexample:
  "keyword_key latin1_lower [''aa''] (point_payload (stored_chunk 2 ''D'' 2 1 ''aaaa'')) = Inr 2 \<and>
   occurrence_score latin1_lower [''aa''] (point_payload (stored_chunk 2 ''D'' 2 1 ''aaaa'')) = 3 \<and>
   keyword_phase memory_index latin1_lower overlap_store (Some [''aa'']) ''D''
     = Inr (map point_payload
              [stored_chunk 1 ''D'' 1 1 ''aa aa'', stored_chunk 2 ''D'' 2 1 ''aaaa'']) \<and>
   map (occurrence_score latin1_lower [''aa''])
     (map point_payload
        [stored_chunk 1 ''D'' 1 1 ''aa aa'', stored_chunk 2 ''D'' 2 1 ''aaaa'']) = [2, 3]"
  by (intro conjI; code_simp)


end
